theory Spec2Isabelle
  imports
    Complex_Main
    "HOL-Library.Char_ord"
    "HOL-Library.List_Lexorder"
    "HOL-Library.Product_Lexorder"
begin

section \<open>Time-lapse frame selection: a shallow embedding of the four scripts\<close>

text \<open>
  The repository holds four Python scripts that share one engine:
  \<^item> \<^verbatim>\<open>automate_timelapse.py\<close> (sunrise and sunset per folder, fixed UTC-8),
  \<^item> \<^verbatim>\<open>automate_overlapping_timelapse.py\<close> (global index, anchor-centred range,
    offset from a table of DST dates),
  \<^item> \<^verbatim>\<open>automate_goldenhour.py\<close> (global index, time window with caps),
  \<^item> \<^verbatim>\<open>automate_rewind.py\<close> (the same index, window ending at nautical dusk,
    forward-then-rewind frame list).

  Conventions of the model.
  \<^item> Python's unbounded integers are \<open>int\<close>; list lengths and positions are \<open>nat\<close>.
  \<^item> Strings are \<open>string\<close>; Python compares strings by code point, which for the
    ASCII paths of an archive is the lexicographic order on \<open>char list\<close>.
  \<^item> Tuples \<open>(timestamp, path)\<close> are pairs, compared lexicographically as Python does.
  \<^item> A naive \<open>datetime\<close> with whole seconds is the number of seconds since
    1970-01-01 00:00 on its own clock; a timezone-aware instant is a rational number
    of seconds since the epoch, on the microsecond grid that \<open>timedelta\<close> keeps.
    The calendar's range limits (years 1 to 9999) are not modelled.
  \<^item> The metadata reader \<^verbatim>\<open>get_exif_timestamp\<close> runs an external program; it is a
    parameter \<open>exif\<close> from paths to \<open>int option\<close> (whole seconds, as its format string
    has no fraction), \<open>None\<close> when no capture time can be read.
  \<^item> \<^verbatim>\<open>os.walk\<close> is its result: the list of \<open>(root, dirs, files)\<close> in visiting order.
  \<^item> Python's binary floating point is idealised as exact arithmetic: rationals
    where only \<open>+ - * /\<close> occur, reals where \<^verbatim>\<open>math.cos\<close>, \<^verbatim>\<open>math.acos\<close> and
    the like occur. Rounding that Python documents (the conversion of a float to
    \<open>int\<close>, \<open>timedelta\<close>'s rounding to microseconds) is modelled.
\<close>

subsection \<open>Python primitives\<close>

datatype py_error = ValueError | ZeroDivisionError

text \<open>\<^verbatim>\<open>int(x)\<close> on a float truncates towards zero.\<close>

definition py_int :: "'a::floor_ceiling \<Rightarrow> int" where
  "py_int x = (if 0 \<le> x then \<lfloor>x\<rfloor> else \<lceil>x\<rceil>)"

text \<open>\<^verbatim>\<open>x % m\<close> and \<^verbatim>\<open>x // m\<close> on floats, for a positive modulus.\<close>

definition fmod :: "real \<Rightarrow> real \<Rightarrow> real" where
  "fmod x m = x - m * of_int \<lfloor>x / m\<rfloor>"

definition floordiv :: "real \<Rightarrow> real \<Rightarrow> real" where
  "floordiv x m = of_int \<lfloor>x / m\<rfloor>"

text \<open>Python's \<^verbatim>\<open>round\<close>, which \<open>timedelta\<close> uses on microseconds: ties go to even.\<close>

definition round_half_even :: "'a::floor_ceiling \<Rightarrow> int" where
  "round_half_even x =
     (let f = \<lfloor>x\<rfloor>; d = x - of_int f
      in if d < 1 / 2 then f else if 1 / 2 < d then f + 1
         else if even f then f else f + 1)"

text \<open>\<^verbatim>\<open>timedelta(seconds=x)\<close> for a float \<open>x\<close>, as seconds on the microsecond grid.\<close>

definition timedelta_seconds :: "rat \<Rightarrow> rat" where
  "timedelta_seconds x = of_int (round_half_even (x * 1000000)) / 1000000"

text \<open>\<^verbatim>\<open>s.startswith(p)\<close>, \<^verbatim>\<open>s.endswith(p)\<close>, \<^verbatim>\<open>p in s\<close> and \<^verbatim>\<open>os.path.join(a, b)\<close>.\<close>

fun startswith :: "string \<Rightarrow> string \<Rightarrow> bool" where
  "startswith s [] = True"
| "startswith [] (p # ps) = False"
| "startswith (c # cs) (p # ps) = (c = p \<and> startswith cs ps)"

definition endswith :: "string \<Rightarrow> string \<Rightarrow> bool" where
  "endswith s p = startswith (rev s) (rev p)"

fun contains :: "string \<Rightarrow> string \<Rightarrow> bool" where
  "contains p [] = (p = [])"
| "contains p (c # cs) = (startswith (c # cs) p \<or> contains p cs)"

definition path_join :: "string \<Rightarrow> string \<Rightarrow> string" where
  "path_join a b =
     (if startswith b ''/'' then b
      else if a = [] \<or> endswith a ''/'' then a @ b
      else a @ ''/'' @ b)"

text \<open>
  \<^verbatim>\<open>xs[s:e]\<close> for integers \<open>s\<close> and \<open>e\<close>: a negative index counts from the end, and
  both ends are clamped to the list.
\<close>

definition clamp_index :: "int \<Rightarrow> int \<Rightarrow> nat" where
  "clamp_index n i = nat (if i < 0 then max 0 (i + n) else min i n)"

definition py_slice :: "'a list \<Rightarrow> int \<Rightarrow> int \<Rightarrow> 'a list" where
  "py_slice xs s e =
     (let n = int (length xs); lo = clamp_index n s; hi = clamp_index n e
      in take (hi - lo) (drop lo xs))"

text \<open>
  \<^verbatim>\<open>xs[::-k]\<close> for \<open>k \<ge> 1\<close>, started at \<open>i = len(xs) - 1\<close>: the element at \<open>i\<close>, then
  at \<open>i - k\<close>, while the position is not negative. (The caller's \<open>k\<close> is at least 1;
  for other \<open>k\<close> Python's slice means something else, and the model returns \<open>[]\<close>.)
\<close>

function slice_rev :: "'a list \<Rightarrow> int \<Rightarrow> int \<Rightarrow> 'a list" where
  "slice_rev xs i k =
     (if i < 0 \<or> k \<le> 0 then [] else xs ! nat i # slice_rev xs (i - k) k)"
  by pat_completeness auto
termination
  by (relation "measure (\<lambda>(xs, i, k). nat (i + 1))") auto

text \<open>
  \<^verbatim>\<open>bisect.bisect_left(a, x)\<close> of the standard library, with \<open>lo = 0\<close> and
  \<open>hi = len(a)\<close> at the call: the loop \<^verbatim>\<open>while lo < hi: mid = (lo + hi) // 2;
  if a[mid] < x: lo = mid + 1 else: hi = mid\<close>.
\<close>

function bisect_left :: "'a::linorder list \<Rightarrow> 'a \<Rightarrow> nat \<Rightarrow> nat \<Rightarrow> nat" where
  "bisect_left a x lo hi =
     (if lo < hi
      then (let mid = (lo + hi) div 2
            in if a ! mid < x then bisect_left a x (mid + 1) hi
               else bisect_left a x lo mid)
      else lo)"
  by pat_completeness auto
termination
  by (relation "measure (\<lambda>(a, x, lo, hi). hi - lo)") auto

subsection \<open>Calendar\<close>

text \<open>
  A \<^verbatim>\<open>datetime\<close> of the solar calculator. Its callers pass midnight of a date, and it
  builds \<^verbatim>\<open>datetime(year, month, day, hours, minutes)\<close>; seconds and microseconds are
  zero throughout, so five fields suffice (also for the comparisons of
  \<^verbatim>\<open>get_local_offset\<close>, whose bounds have zero seconds).
\<close>

record datetime =
  year :: int
  month :: int
  day :: int
  hour :: int
  minute :: int

definition dt_key :: "datetime \<Rightarrow> int \<times> int \<times> int \<times> int \<times> int" where
  "dt_key d = (year d, month d, day d, hour d, minute d)"

definition dt_less :: "datetime \<Rightarrow> datetime \<Rightarrow> bool" where
  "dt_less a b = (dt_key a < dt_key b)"

definition dt_le :: "datetime \<Rightarrow> datetime \<Rightarrow> bool" where
  "dt_le a b = (dt_key a \<le> dt_key b)"

text \<open>
  The constructor \<^verbatim>\<open>datetime(y, m, d, h, mi)\<close> on the date of an existing \<open>datetime\<close>:
  it raises \<open>ValueError\<close> unless \<open>0 \<le> h < 24\<close> and \<open>0 \<le> mi < 60\<close>.
\<close>

definition mk_datetime :: "int \<Rightarrow> int \<Rightarrow> int \<Rightarrow> int \<Rightarrow> int \<Rightarrow> py_error + datetime" where
  "mk_datetime y m d h mi =
     (if 0 \<le> h \<and> h < 24 \<and> 0 \<le> mi \<and> mi < 60
      then Inr \<lparr>year = y, month = m, day = d, hour = h, minute = mi\<rparr>
      else Inl ValueError)"

definition is_leap :: "int \<Rightarrow> bool" where
  "is_leap y = (y mod 4 = 0 \<and> (y mod 100 \<noteq> 0 \<or> y mod 400 = 0))"

definition days_in_month :: "int \<Rightarrow> int \<Rightarrow> int" where
  "days_in_month y m =
     (if m = 2 then (if is_leap y then 29 else 28)
      else if m = 4 \<or> m = 6 \<or> m = 9 \<or> m = 11 then 30 else 31)"

definition days_before_month :: "int \<Rightarrow> int \<Rightarrow> int" where
  "days_before_month y m = (\<Sum>k \<leftarrow> [1..<nat m]. days_in_month y (int k))"

definition days_before_year :: "int \<Rightarrow> int" where
  "days_before_year y = (y - 1) * 365 + (y - 1) div 4 - (y - 1) div 100 + (y - 1) div 400"

text \<open>\<^verbatim>\<open>date.timetuple().tm_yday\<close>: the day of the year, from 1.\<close>

definition tm_yday :: "datetime \<Rightarrow> int" where
  "tm_yday d = days_before_month (year d) (month d) + day d"

definition toordinal :: "datetime \<Rightarrow> int" where
  "toordinal d = days_before_year (year d) + tm_yday d"

text \<open>Seconds from 1970-01-01 00:00 (ordinal 719163) to a \<open>datetime\<close>, on its own clock.\<close>

definition to_seconds :: "datetime \<Rightarrow> int" where
  "to_seconds d = ((toordinal d - 719163) * 24 + hour d) * 3600 + minute d * 60"

definition hms :: "int \<Rightarrow> int \<Rightarrow> int \<Rightarrow> int" where
  "hms h m s = h * 3600 + m * 60 + s"

subsection \<open>The rewind transform (\<^verbatim>\<open>create_video_with_rewind\<close>, \<^verbatim>\<open>automate_rewind.py\<close> 67-73)\<close>

definition rewind_step :: "'a list \<Rightarrow> int" where
  "rewind_step frame_list = (let N = int (length frame_list); M = 45 in max 1 (N div M))"

definition rewind_frames :: "'a list \<Rightarrow> 'a list" where
  "rewind_frames frame_list =
     slice_rev frame_list (int (length frame_list) - 1) (rewind_step frame_list)"

definition full_list :: "'a list \<Rightarrow> 'a list" where
  "full_list frame_list = frame_list @ rewind_frames frame_list"

subsection \<open>Index construction (\<^verbatim>\<open>GlobalTimeline.__init__\<close>)\<close>

type_synonym walk_entry = "string \<times> string list \<times> string list"

definition tls_files_of :: "string list \<Rightarrow> string list" where
  "tls_files_of files =
     sort (filter (\<lambda>f. startswith f ''TLS_'' \<and> endswith f ''.jpg'') files)"

text \<open>
  The loop over \<^verbatim>\<open>os.walk\<close>: each entry appends the frames of its session to the
  accumulator \<^verbatim>\<open>self.frames\<close> (nothing, when the body hits a \<^verbatim>\<open>continue\<close>).
\<close>

fun index_loop :: "(walk_entry \<Rightarrow> 'f list) \<Rightarrow> walk_entry list \<Rightarrow> 'f list \<Rightarrow> 'f list" where
  "index_loop session [] frames = frames"
| "index_loop session (e # es) frames = index_loop session es (frames @ session e)"

text \<open>
  \<^verbatim>\<open>automate_overlapping_timelapse.py\<close> 70-91. Timestamps are naive, in whole seconds:
  frame \<open>i\<close> of a session gets \<open>t0 + 10 * i\<close> seconds. The last frame's time \<open>tn\<close> is
  read, and the session skipped when it is absent, but its value is not used.
  The final \<^verbatim>\<open>self.frames.sort()\<close> compares the tuples \<open>(timestamp, path)\<close>.
\<close>

definition CUTOFF_DATE :: int where
  "CUTOFF_DATE = to_seconds \<lparr>year = 2025, month = 3, day = 20, hour = 0, minute = 0\<rparr>"

definition frames_ov :: "string \<Rightarrow> string list \<Rightarrow> int \<Rightarrow> (int \<times> string) list" where
  "frames_ov root_dir tls_files t0 =
     map (\<lambda>(i, f). (t0 + int i * 10, path_join root_dir f)) (enumerate 0 tls_files)"

definition session_ov :: "(string \<Rightarrow> int option) \<Rightarrow> walk_entry \<Rightarrow> (int \<times> string) list" where
  "session_ov exif e =
     (case e of (root_dir, dirs, files) \<Rightarrow>
        if contains ''thumbnail'' root_dir then []
        else let tls_files = tls_files_of files in
          if tls_files = [] then []
          else case exif (path_join root_dir (hd tls_files)) of
              None \<Rightarrow> []
            | Some t0 \<Rightarrow>
                if t0 < CUTOFF_DATE then []
                else case exif (path_join root_dir (last tls_files)) of
                    None \<Rightarrow> []
                  | Some tn \<Rightarrow> frames_ov root_dir tls_files t0)"

definition GlobalTimeline_ov :: "(string \<Rightarrow> int option) \<Rightarrow> walk_entry list \<Rightarrow> (int \<times> string) list" where
  "GlobalTimeline_ov exif walk = sort (index_loop (session_ov exif) walk [])"

text \<open>
  \<^verbatim>\<open>automate_goldenhour.py\<close> 41-59 and \<^verbatim>\<open>automate_rewind.py\<close> 41-59 (the same text).
  \<open>interval\<close> is \<open>(tn - t0) / (count - 1)\<close> seconds, or 10 for a single frame; frame \<open>i\<close>
  gets \<^verbatim>\<open>t0 + timedelta(seconds=i * interval)\<close>. The final sort is
  \<^verbatim>\<open>self.frames.sort(key=lambda x: x[0])\<close>: stable, by timestamp only.
\<close>

definition frames_gh :: "string \<Rightarrow> string list \<Rightarrow> int \<Rightarrow> int \<Rightarrow> (rat \<times> string) list" where
  "frames_gh root_dir tls_files t0 tn =
     (let count = length tls_files;
          interval = (if count > 1 then of_int (tn - t0) / of_nat (count - 1) else 10)
      in map (\<lambda>(i, f). (of_int t0 + timedelta_seconds (of_nat i * interval), path_join root_dir f))
           (enumerate 0 tls_files))"

definition session_gh ::
  "(string \<Rightarrow> int option) \<Rightarrow> int option \<Rightarrow> walk_entry \<Rightarrow> (rat \<times> string) list" where
  "session_gh exif start_cutoff e =
     (case e of (root_dir, dirs, files) \<Rightarrow>
        if contains ''thumbnail'' root_dir then []
        else let tls_files = tls_files_of files in
          if tls_files = [] then []
          else case exif (path_join root_dir (hd tls_files)) of
              None \<Rightarrow> []
            | Some t0 \<Rightarrow>
                if (case start_cutoff of None \<Rightarrow> False | Some c \<Rightarrow> t0 < c) then []
                else case exif (path_join root_dir (last tls_files)) of
                    None \<Rightarrow> []
                  | Some tn \<Rightarrow> frames_gh root_dir tls_files t0 tn)"

definition GlobalTimeline_gh ::
  "(string \<Rightarrow> int option) \<Rightarrow> int option \<Rightarrow> walk_entry list \<Rightarrow> (rat \<times> string) list" where
  "GlobalTimeline_gh exif start_cutoff walk =
     sort_key fst (index_loop (session_gh exif start_cutoff) walk [])"

subsection \<open>Queries\<close>

text \<open>\<^verbatim>\<open>get_time_window\<close> (goldenhour 61-63, rewind 61-62).\<close>

definition get_time_window :: "('t::linorder \<times> string) list \<Rightarrow> 't \<Rightarrow> 't \<Rightarrow> ('t \<times> string) list" where
  "get_time_window frames start_time end_time =
     filter (\<lambda>f. start_time \<le> fst f \<and> fst f \<le> end_time) frames"

text \<open>
  \<^verbatim>\<open>get_range\<close> (overlapping 93-111), in its steps. \<^verbatim>\<open>self.frames.sort()\<close> is run again
  at every call, so the search is on the sorted list whatever the caller holds.
\<close>

definition num_frames_of :: "int \<Rightarrow> int" where
  "num_frames_of duration_sec = duration_sec * 30"

definition frames_before_of :: "int \<Rightarrow> rat \<Rightarrow> int" where
  "frames_before_of duration_sec center_ratio =
     py_int (of_int (num_frames_of duration_sec) * center_ratio)"

definition anchor_idx :: "(int \<times> string) list \<Rightarrow> int \<Rightarrow> int" where
  "anchor_idx frames target_time =
     int (bisect_left (sort frames) (target_time, '''') 0 (length (sort frames)))"

definition get_range :: "(int \<times> string) list \<Rightarrow> int \<Rightarrow> int \<Rightarrow> rat \<Rightarrow> (int \<times> string) list" where
  "get_range frames target_time duration_sec center_ratio =
     (let num_frames = num_frames_of duration_sec;
          frames_before = frames_before_of duration_sec center_ratio;
          sorted_frames = sort frames;
          idx = anchor_idx frames target_time;
          start_idx = max 0 (idx - frames_before);
          end_idx = start_idx + num_frames;
          len = int (length sorted_frames);
          end_idx' = (if end_idx > len then len else end_idx);
          start_idx' = (if end_idx > len then max 0 (end_idx' - num_frames) else start_idx)
      in py_slice sorted_frames start_idx' end_idx')"

subsection \<open>Window policies (the \<^verbatim>\<open>__main__\<close> blocks)\<close>

text \<open>
  \<^verbatim>\<open>automate_goldenhour.py\<close> 116-126: the raw window is 150 minutes before to 120 minutes
  after sunset; each end is capped by \<open>min\<close> against 17:00 and 21:00 local of that date
  (\<^verbatim>\<open>SF_TZ.localize\<close> of them is the library's; the two instants are parameters).
\<close>

definition goldenhour_window :: "rat \<Rightarrow> rat \<Rightarrow> rat \<Rightarrow> rat \<times> rat" where
  "goldenhour_window sunset target_5pm target_9pm =
     (let s_win = sunset - 150 * 60;
          e_win = sunset + 120 * 60;
          final_start = min s_win target_5pm;
          final_end = min e_win target_9pm
      in (final_start, final_end))"

definition goldenhour_frames ::
  "(rat \<times> string) list \<Rightarrow> rat \<Rightarrow> rat \<Rightarrow> rat \<Rightarrow> (rat \<times> string) list" where
  "goldenhour_frames timeline sunset target_5pm target_9pm =
     (case goldenhour_window sunset target_5pm target_9pm of
        (final_start, final_end) \<Rightarrow> get_time_window timeline final_start final_end)"

text \<open>
  \<^verbatim>\<open>automate_rewind.py\<close> 121-127: the start is capped the same way; the end is the second
  event, nautical dusk, itself.
\<close>

definition rewind_window :: "rat \<Rightarrow> rat \<Rightarrow> rat \<Rightarrow> rat \<times> rat" where
  "rewind_window sunset nautical_dusk target_5pm =
     (let s_win = sunset - 150 * 60;
          final_start = min s_win target_5pm;
          final_end = nautical_dusk
      in (final_start, final_end))"

definition rewind_window_frames ::
  "(rat \<times> string) list \<Rightarrow> rat \<Rightarrow> rat \<Rightarrow> rat \<Rightarrow> (rat \<times> string) list" where
  "rewind_window_frames timeline sunset nautical_dusk target_5pm =
     (case rewind_window sunset nautical_dusk target_5pm of
        (final_start, final_end) \<Rightarrow> get_time_window timeline final_start final_end)"

subsection \<open>The solar calculator (\<^verbatim>\<open>get_sun_time\<close>, \<^verbatim>\<open>get_sunset_time\<close>)\<close>

text \<open>
  The four scripts compute the same quantities with the same text: the fractional year
  \<open>gamma\<close> from the day of the year, the equation of time and the declination as
  truncated Fourier series in \<open>gamma\<close>, and the cosine of the hour angle from the zenith,
  the latitude and the declination. Python's \<^verbatim>\<open>/\<close> raises \<open>ZeroDivisionError\<close> on a
  zero divisor; \<^verbatim>\<open>math.acos\<close> is only reached for an argument in \<open>[-1, 1]\<close>.
\<close>

definition LATITUDE :: real where
  "LATITUDE = 37.791667734079596"

definition LONGITUDE :: real where
  "LONGITUDE = - 122.41549323195979"

definition radians :: "real \<Rightarrow> real" where
  "radians x = x * (pi / 180)"

definition degrees :: "real \<Rightarrow> real" where
  "degrees x = x * (180 / pi)"

definition fractional_year :: "int \<Rightarrow> real" where
  "fractional_year day_of_year = (2 * pi / 365) * (of_int day_of_year - 1)"

definition eqtime_of :: "real \<Rightarrow> real" where
  "eqtime_of gamma =
     229.18 * (0.000075 + 0.001868 * cos gamma - 0.032077 * sin gamma
               - 0.014615 * cos (2 * gamma) - 0.040849 * sin (2 * gamma))"

definition decl_of :: "real \<Rightarrow> real" where
  "decl_of gamma =
     0.006918 - 0.399912 * cos gamma + 0.070257 * sin gamma
     - 0.006758 * cos (2 * gamma) + 0.000907 * sin (2 * gamma)
     - 0.002697 * cos (3 * gamma) + 0.00148 * sin (3 * gamma)"

definition cos_ha_of :: "real \<Rightarrow> real \<Rightarrow> py_error + real" where
  "cos_ha_of zenith_deg decl =
     (let zenith = radians zenith_deg;
          rad_lat = radians LATITUDE
      in if cos rad_lat * cos decl = 0 then Inl ZeroDivisionError
         else Inr (cos zenith / (cos rad_lat * cos decl) - tan rad_lat * tan decl))"

text \<open>
  The value the specification calls \<open>cos(ha)\<close>, for a zenith in degrees and a date:
  \<open>cos(zenith) / (cos(lat) * cos(decl)) - tan(lat) * tan(decl)\<close>.
\<close>

definition cos_ha_value :: "real \<Rightarrow> datetime \<Rightarrow> real" where
  "cos_ha_value zenith_deg date =
     (let decl = decl_of (fractional_year (tm_yday date))
      in cos (radians zenith_deg) / (cos (radians LATITUDE) * cos decl)
         - tan (radians LATITUDE) * tan decl)"

text \<open>
  \<^verbatim>\<open>automate_timelapse.py\<close> 12-76: the event is a string, the zenith is 90.833 degrees, the
  local time is UTC minus eight hours on every date.
\<close>

definition get_sun_time_tl :: "datetime \<Rightarrow> string \<Rightarrow> py_error + datetime option" where
  "get_sun_time_tl date event =
     (let day_of_year = tm_yday date;
          gamma = (2 * pi / 365) * (of_int day_of_year - 1 + (12 - 12) / 24);
          eqtime = eqtime_of gamma;
          decl = decl_of gamma
      in case cos_ha_of 90.833 decl of
           Inl e \<Rightarrow> Inl e
         | Inr cos_ha \<Rightarrow>
             if cos_ha > 1 then Inr None
             else if cos_ha < - 1 then Inr None
             else
               let ha0 = arccos cos_ha;
                   ha = (if event = ''sunrise'' then - ha0 else ha0);
                   ha_deg = degrees ha;
                   solar_noon_utc = 720 - 4 * LONGITUDE - eqtime;
                   t1 = solar_noon_utc - 4 * ha_deg;
                   t2 = solar_noon_utc + 4 * ha_deg;
                   morning_utc = min t1 t2;
                   evening_utc = max t1 t2;
                   utctime = (if event = ''sunrise'' then morning_utc else evening_utc);
                   local_time_min = fmod (utctime - 8 * 60) 1440;
                   l_hours = py_int (floordiv local_time_min 60);
                   l_minutes = py_int (fmod local_time_min 60)
               in (case mk_datetime (year date) (month date) (day date) l_hours l_minutes of
                     Inl e \<Rightarrow> Inl e
                   | Inr d \<Rightarrow> Inr (Some d)))"

text \<open>
  \<^verbatim>\<open>automate_overlapping_timelapse.py\<close> 11-26: the offset comes from a table of the
  daylight-saving dates of 2025 and 2026; any other year gets -8.
\<close>

definition get_local_offset :: "datetime \<Rightarrow> int" where
  "get_local_offset dt =
     (case (if year dt = 2025
            then Some (\<lparr>year = 2025, month = 3, day = 9, hour = 2, minute = 0\<rparr>,
                       \<lparr>year = 2025, month = 11, day = 2, hour = 2, minute = 0\<rparr>)
            else if year dt = 2026
            then Some (\<lparr>year = 2026, month = 3, day = 8, hour = 2, minute = 0\<rparr>,
                       \<lparr>year = 2026, month = 11, day = 1, hour = 2, minute = 0\<rparr>)
            else None) of
        None \<Rightarrow> - 8
      | Some (dst_start, dst_end) \<Rightarrow>
          if dt_le dst_start dt \<and> dt_less dt dst_end then - 7 else - 8)"

text \<open>\<^verbatim>\<open>automate_overlapping_timelapse.py\<close> 28-57.\<close>

definition get_sun_time_ov :: "datetime \<Rightarrow> string \<Rightarrow> py_error + datetime option" where
  "get_sun_time_ov date event =
     (let day_of_year = tm_yday date;
          gamma = (2 * pi / 365) * (of_int day_of_year - 1);
          eqtime = eqtime_of gamma;
          decl = decl_of gamma
      in case cos_ha_of 90.833 decl of
           Inl e \<Rightarrow> Inl e
         | Inr cos_ha \<Rightarrow>
             if cos_ha > 1 \<or> cos_ha < - 1 then Inr None
             else
               let ha = arccos cos_ha;
                   ha_deg = degrees ha;
                   solar_noon_utc = 720 - 4 * LONGITUDE - eqtime;
                   t1 = solar_noon_utc - 4 * ha_deg;
                   t2 = solar_noon_utc + 4 * ha_deg;
                   morning_utc = min t1 t2;
                   evening_utc = max t1 t2;
                   utctime = (if event = ''sunrise'' then morning_utc else evening_utc);
                   offset = get_local_offset date;
                   local_time_min = fmod (utctime + of_int offset * 60) 1440
               in (case mk_datetime (year date) (month date) (day date)
                          (py_int (floordiv local_time_min 60)) (py_int (fmod local_time_min 60)) of
                     Inl e \<Rightarrow> Inl e
                   | Inr d \<Rightarrow> Inr (Some d)))"

text \<open>
  \<^verbatim>\<open>automate_rewind.py\<close> 14-31, and \<^verbatim>\<open>automate_goldenhour.py\<close> 14-31 with the zenith fixed at
  90.833: the evening crossing as an instant, \<^verbatim>\<open>datetime(y, m, d, tzinfo=UTC) +
  timedelta(minutes=utctime)\<close>. The conversion \<^verbatim>\<open>astimezone(SF_TZ)\<close> is the library's; it
  changes the clock reading, not the instant.
\<close>

definition utc_midnight :: "datetime \<Rightarrow> int" where
  "utc_midnight date = (toordinal date - 719163) * 86400"

definition timedelta_minutes :: "real \<Rightarrow> rat" where
  "timedelta_minutes m = of_int (round_half_even (m * 60 * 1000000)) / 1000000"

definition get_sun_time_rw :: "datetime \<Rightarrow> real \<Rightarrow> py_error + rat option" where
  "get_sun_time_rw date zenith_deg =
     (let day_of_year = tm_yday date;
          gamma = (2 * pi / 365) * (of_int day_of_year - 1);
          eqtime = eqtime_of gamma;
          decl = decl_of gamma
      in case cos_ha_of zenith_deg decl of
           Inl e \<Rightarrow> Inl e
         | Inr cos_ha \<Rightarrow>
             if cos_ha > 1 \<or> cos_ha < - 1 then Inr None
             else
               let ha_deg = degrees (arccos cos_ha);
                   solar_noon_utc = 720 - 4 * LONGITUDE - eqtime;
                   utctime = solar_noon_utc + 4 * ha_deg;
                   dt_utc = of_int (utc_midnight date) + timedelta_minutes utctime
               in Inr (Some dt_utc))"

definition get_sunset_time :: "datetime \<Rightarrow> py_error + rat option" where
  "get_sunset_time date = get_sun_time_rw date 90.833"


text \<open>
  The quantities of the specification's steps 3 and 4: solar noon in UTC minutes, the hour
  angle in degrees, and the crossing \<open>solarNoon - 4 * ha\<close> (morning) or
  \<open>solarNoon + 4 * ha\<close> (evening) in minutes after UTC midnight of the date.
\<close>

definition solar_noon_utc_of :: "datetime \<Rightarrow> real" where
  "solar_noon_utc_of date = 720 - 4 * LONGITUDE - eqtime_of (fractional_year (tm_yday date))"

definition ha_deg_of :: "real \<Rightarrow> datetime \<Rightarrow> real" where
  "ha_deg_of zenith_deg date = degrees (arccos (cos_ha_value zenith_deg date))"

definition crossing_utc :: "real \<Rightarrow> datetime \<Rightarrow> string \<Rightarrow> real" where
  "crossing_utc zenith_deg date event =
     (if event = ''sunrise''
      then solar_noon_utc_of date - 4 * ha_deg_of zenith_deg date
      else solar_noon_utc_of date + 4 * ha_deg_of zenith_deg date)"

text \<open>The wall-clock reading \<open>datetime(y, m, d, hours, minutes)\<close> of a minute of the day.\<close>

definition clock_of :: "datetime \<Rightarrow> real \<Rightarrow> datetime" where
  "clock_of date local_time_min =
     \<lparr>year = year date, month = month date, day = day date,
      hour = \<lfloor>local_time_min / 60\<rfloor>, minute = \<lfloor>fmod local_time_min 60\<rfloor>\<rparr>"

subsection \<open>Example archives\<close>

text \<open>
  File names follow the archive's convention \<^verbatim>\<open>TLS_%09d.jpg\<close>. The examples are used
  where a statement is checked on a concrete archive.
\<close>

fun digits :: "nat \<Rightarrow> nat \<Rightarrow> string" where
  "digits 0 n = []"
| "digits (Suc k) n = digits k (n div 10) @ [char_of (48 + n mod 10)]"

definition TLS_name :: "nat \<Rightarrow> string" where
  "TLS_name i = ''TLS_'' @ digits 9 i @ ''.jpg''"

text \<open>One session of 31 frames, captured from 2025-03-20 00:00:00 on.\<close>

definition ex_walk :: "walk_entry list" where
  "ex_walk = [(''archive/day1'', [], map TLS_name [1..<32])]"

definition ex_exif :: "string \<Rightarrow> int option" where
  "ex_exif p = Some 1742428800"

definition ex_index :: "(int \<times> string) list" where
  "ex_index = GlobalTimeline_ov ex_exif ex_walk"

text \<open>Two sessions; the reader fails on the last frame of the first.\<close>

definition skip_walk :: "walk_entry list" where
  "skip_walk =
     [(''archive'', [''a'', ''b''], []),
      (''archive/a'', [], map TLS_name [1..<4]),
      (''archive/b'', [], map TLS_name [1..<3])]"

definition skip_exif :: "string \<Rightarrow> int option" where
  "skip_exif p = (if p = ''archive/a/TLS_000000003.jpg'' then None else Some 1765800000)"

text \<open>Two one-frame sessions with the same capture time, visited \<open>b\<close> before \<open>a\<close>.\<close>

definition tie_walk :: "walk_entry list" where
  "tie_walk =
     [(''archive'', [''b'', ''a''], []),
      (''archive/b'', [], [TLS_name 1]),
      (''archive/a'', [], [TLS_name 1])]"

definition tie_exif :: "string \<Rightarrow> int option" where
  "tie_exif p = Some 1765800000"

text \<open>A reader whose first frame is at 1765800000 and every other frame \<open>d\<close> seconds later.\<close>

definition drift_exif :: "int \<Rightarrow> string \<Rightarrow> int option" where
  "drift_exif d p =
     (if p = ''archive/day1/TLS_000000001.jpg'' then Some 1765800000 else Some (1765800000 + d))"


section \<open>The rewind transform\<close>

declare slice_rev.simps [simp del]

lemma slice_rev_length:
  "0 < k \<Longrightarrow> - 1 \<le> i \<Longrightarrow> length (slice_rev xs i k) = nat ((i + k) div k)"
proof (induction xs i k rule: slice_rev.induct)
  case (1 xs i k)
  show ?case
  proof (cases "i < 0")
    case True
    with 1(3) have "i = - 1" by simp
    with 1(2) show ?thesis by (simp add: slice_rev.simps [of xs "- 1" k])
  next
    case False
    show ?thesis
    proof (cases "i - k < 0")
      case True
      with False 1(2) have "i div k = 0"
        by (simp add: div_pos_pos_trivial)
      with 1(2) have "(i + k) div k = 1"
        by simp
      with True False 1(2) show ?thesis
        by (simp add: slice_rev.simps [of xs i k] slice_rev.simps [of xs "i - k" k])
    next
      case ge: False
      with False 1 have "length (slice_rev xs (i - k) k) = nat ((i - k + k) div k)"
        by simp
      moreover have "(i + k) div k = i div k + 1" using 1(2) by simp
      moreover have "0 \<le> i div k" using False 1(2) by (simp add: pos_imp_zdiv_nonneg_iff)
      ultimately show ?thesis using False 1(2)
        by (simp add: slice_rev.simps [of xs i k] nat_add_distrib)
    qed
  qed
qed

lemma slice_rev_nth:
  "0 < k \<Longrightarrow> j < length (slice_rev xs i k) \<Longrightarrow>
     slice_rev xs i k ! j = xs ! nat (i - int j * k)"
proof (induction xs i k arbitrary: j rule: slice_rev.induct)
  case (1 xs i k)
  from 1(3) have nn: "\<not> (i < 0 \<or> k \<le> 0)"
    by (auto simp: slice_rev.simps [of xs i k])
  show ?case
  proof (cases j)
    case 0
    with nn show ?thesis by (simp add: slice_rev.simps [of xs i k])
  next
    case (Suc j')
    with 1(3) nn have "j' < length (slice_rev xs (i - k) k)"
      by (simp add: slice_rev.simps [of xs i k])
    with 1(1) [OF nn 1(2)] have "slice_rev xs (i - k) k ! j' = xs ! nat (i - k - int j' * k)"
      by simp
    moreover have "i - k - int j' * k = i - int j * k" using Suc by (simp add: algebra_simps)
    ultimately show ?thesis using nn Suc by (simp add: slice_rev.simps [of xs i k])
  qed
qed


lemma ceiling_div_int:
  assumes "0 < k"
  shows "\<lceil>(of_int a :: rat) / of_int k\<rceil> = (a + k - 1) div k"
proof -
  have "\<lceil>(of_int a :: rat) / of_int k\<rceil> = - ((- a) div k)"
    by (rule ceiling_divide_eq_div)
  also have "\<dots> = (a + k - 1) div k"
  proof (cases "a mod k = 0")
    case True
    then obtain q where q: "a = k * q" by auto
    have "(k * q + (k - 1)) div k = q + (k - 1) div k"
      using assms by simp
    also have "(k - 1) div k = 0" using assms by (simp add: div_pos_pos_trivial)
    finally have "(a + k - 1) div k = q" using q by (simp add: algebra_simps)
    moreover have "- a = k * (- q)" using q by simp
    then have "(- a) div k = - q" using assms
      by (metis nonzero_mult_div_cancel_left less_irrefl)
    ultimately show ?thesis by simp
  next
    case False
    define r where "r = a mod k"
    define q where "q = a div k"
    have a: "a = k * q + r" by (simp add: r_def q_def)
    have "0 \<le> a mod k" "a mod k < k" using assms by simp_all
    with False have r: "0 < r" "r < k" by (simp_all add: r_def)
    have "(- a) div k = - q - 1"
      using False assms by (simp add: zdiv_zminus1_eq_if q_def)
    moreover have "a + k - 1 = k * (q + 1) + (r - 1)" using a by (simp add: algebra_simps)
    then have "(a + k - 1) div k = q + 1 + (r - 1) div k"
      using assms by (metis div_mult_self2 add.commute less_irrefl)
    then have "(a + k - 1) div k = q + 1" using r by (simp add: div_pos_pos_trivial)
    ultimately show ?thesis by simp
  qed
  finally show ?thesis .
qed

lemma rewind_step_pos: "0 < rewind_step xs"
  by (simp add: rewind_step_def Let_def)

lemma rewind_step_nat: "rewind_step xs = int (max 1 (length xs div 45))"
  by (simp add: rewind_step_def Let_def zdiv_int)

lemma rewind_frames_length:
  "length (rewind_frames xs) =
     nat \<lceil>(of_nat (length xs) :: rat) / of_nat (max 1 (length xs div 45))\<rceil>"
proof -
  let ?k = "rewind_step xs"
  have "length (rewind_frames xs) = nat ((int (length xs) - 1 + ?k) div ?k)"
    unfolding rewind_frames_def by (rule slice_rev_length) (simp_all add: rewind_step_pos)
  also have "(int (length xs) - 1 + ?k) div ?k = \<lceil>(of_int (int (length xs)) :: rat) / of_int ?k\<rceil>"
    using ceiling_div_int [OF rewind_step_pos, where a = "int (length xs)" and xs1 = xs] by (simp add: algebra_simps)
  also have "\<dots> = \<lceil>(of_nat (length xs) :: rat) / of_nat (max 1 (length xs div 45))\<rceil>"
    by (simp only: rewind_step_nat of_int_of_nat_eq)
  finally show ?thesis .
qed

lemma rewind_frames_nth:
  assumes "j < length (rewind_frames xs)"
  shows "rewind_frames xs ! j = xs ! (length xs - 1 - j * max 1 (length xs div 45))"
proof -
  let ?k = "max 1 (length xs div 45)"
  have len: "length (rewind_frames xs) = nat ((int (length xs) - 1 + int ?k) div int ?k)"
    unfolding rewind_frames_def rewind_step_nat
    by (rule slice_rev_length) simp_all
  have "rewind_frames xs ! j = xs ! nat (int (length xs) - 1 - int j * int ?k)"
    using assms unfolding rewind_frames_def rewind_step_nat
    by (intro slice_rev_nth) simp_all
  also have "nat (int (length xs) - 1 - int j * int ?k) = length xs - 1 - j * ?k"
  proof -
    define m where "m = j * ?k"
    have "int j * int ?k = int m" by (simp only: m_def of_nat_mult)
    moreover have "nat (int (length xs) - 1 - int m) = length xs - 1 - m" by linarith
    ultimately show ?thesis by (simp only: m_def)
  qed
  finally show ?thesis .
qed

text \<open>
  Claim C4. For a forward sequence of length \<open>N\<close> and the rewind target \<open>M = 45\<close>, the step
  is \<open>max 1 (N div 45)\<close>; the rewind sub-sequence takes the frames at positions
  \<open>N - 1\<close>, \<open>N - 1 - step\<close>, \<open>N - 1 - 2 * step\<close>, ... (every step-th frame, backwards from
  the last); its length is the ceiling of \<open>N / step\<close>; the output is the forward sequence
  followed by it, of length \<open>N\<close> plus that ceiling. (It holds for \<open>N = 0\<close> as well.)
\<close>

theorem rewind_transform:
  "rewind_step frame_list = int (max 1 (length frame_list div 45))
   \<and> rewind_frames frame_list =
       map (\<lambda>j. frame_list ! (length frame_list - 1 - j * max 1 (length frame_list div 45)))
         [0..<nat \<lceil>(of_nat (length frame_list) :: rat) / of_nat (max 1 (length frame_list div 45))\<rceil>]
   \<and> length (rewind_frames frame_list) =
       nat \<lceil>(of_nat (length frame_list) :: rat) / of_nat (max 1 (length frame_list div 45))\<rceil>
   \<and> full_list frame_list = frame_list @ rewind_frames frame_list
   \<and> length (full_list frame_list) = length frame_list +
       nat \<lceil>(of_nat (length frame_list) :: rat) / of_nat (max 1 (length frame_list div 45))\<rceil>"
proof -
  have "rewind_frames frame_list =
       map (\<lambda>j. frame_list ! (length frame_list - 1 - j * max 1 (length frame_list div 45)))
         [0..<nat \<lceil>(of_nat (length frame_list) :: rat) / of_nat (max 1 (length frame_list div 45))\<rceil>]"
  proof (rule nth_equalityI)
    show "length (rewind_frames frame_list) = length (map (\<lambda>j. frame_list ! (length frame_list - 1 - j * max 1 (length frame_list div 45)))
         [0..<nat \<lceil>(of_nat (length frame_list) :: rat) / of_nat (max 1 (length frame_list div 45))\<rceil>])"
      by (simp only: length_map length_upt rewind_frames_length diff_zero)
  next
    fix i assume i: "i < length (rewind_frames frame_list)"
    then have "i < nat \<lceil>(of_nat (length frame_list) :: rat) / of_nat (max 1 (length frame_list div 45))\<rceil> - 0"
      by (simp only: rewind_frames_length diff_zero)
    then have "map (\<lambda>j. frame_list ! (length frame_list - 1 - j * max 1 (length frame_list div 45)))
         [0..<nat \<lceil>(of_nat (length frame_list) :: rat) / of_nat (max 1 (length frame_list div 45))\<rceil>] ! i
       = frame_list ! (length frame_list - 1 - (0 + i) * max 1 (length frame_list div 45))"
      by (rule nth_map_upt)
    with rewind_frames_nth [OF i]
    show "rewind_frames frame_list ! i = map (\<lambda>j. frame_list ! (length frame_list - 1 - j * max 1 (length frame_list div 45)))
         [0..<nat \<lceil>(of_nat (length frame_list) :: rat) / of_nat (max 1 (length frame_list div 45))\<rceil>] ! i"
      by simp
  qed
  then show ?thesis
    by (simp add: rewind_step_nat rewind_frames_length [symmetric] full_list_def)
qed

theorem rewind_transform_witness:
  "rewind_step [0..<100::nat] = 2
   \<and> rewind_frames [0..<100::nat] = map (\<lambda>j. 99 - j * 2) [0..<50]
   \<and> length (full_list [0..<100::nat]) = 150"
proof -
  have l: "length [0..<100::nat] = 100" by simp
  have c: "nat \<lceil>(of_nat 100 :: rat) / of_nat (max 1 (100 div 45))\<rceil> = 50" by simp
  have m: "max (1::nat) (100 div 45) = 2" by simp
  have "\<And>j. j < 50 \<Longrightarrow> [0..<100::nat] ! (99 - j * 2) = 99 - j * 2" by simp
  then have e: "map (\<lambda>j. [0..<100::nat] ! (100 - 1 - j * 2)) [0..<50] = map (\<lambda>j. 99 - j * 2) [0..<50]"
    by simp
  show ?thesis
    using rewind_transform [of "[0..<100::nat]"] unfolding l c m e by simp
qed

text \<open>
  Claim C10. For a non-empty forward sequence the rewind sub-sequence is not empty and
  starts with the last forward frame, so in the output that frame stands at positions
  \<open>N - 1\<close> and \<open>N\<close>: twice in immediate succession at the splice.
\<close>

theorem rewind_splice:
  "frame_list \<noteq> [] \<Longrightarrow>
     rewind_frames frame_list \<noteq> []
     \<and> hd (rewind_frames frame_list) = last frame_list
     \<and> full_list frame_list ! (length frame_list - 1) = last frame_list
     \<and> full_list frame_list ! length frame_list = last frame_list"
proof -
  assume ne: "frame_list \<noteq> []"
  let ?k = "rewind_step frame_list"
  have k: "0 < ?k" by (rule rewind_step_pos)
  have i: "\<not> (int (length frame_list) - 1 < 0 \<or> ?k \<le> 0)" using ne k by simp
  have r: "rewind_frames frame_list =
      frame_list ! nat (int (length frame_list) - 1)
        # slice_rev frame_list (int (length frame_list) - 1 - ?k) ?k"
    unfolding rewind_frames_def
    using i by (subst slice_rev.simps) simp
  have n: "nat (int (length frame_list) - 1) = length frame_list - 1" by simp
  show ?thesis using ne by (simp add: r n full_list_def nth_append last_conv_nth)
qed

theorem rewind_splice_witness:
  "[10, 20, 30 :: nat] \<noteq> []
   \<and> hd (rewind_frames [10, 20, 30 :: nat]) = 30
   \<and> full_list [10, 20, 30 :: nat] ! 2 = 30
   \<and> full_list [10, 20, 30 :: nat] ! 3 = 30
   \<and> full_list [10, 20, 30 :: nat] = [10, 20, 30, 30, 20, 10]"
proof -
  have ne: "[10, 20, 30 :: nat] \<noteq> []" by simp
  have f: "full_list [10, 20, 30 :: nat] = [10, 20, 30, 30, 20, 10]"
    by (simp add: full_list_def rewind_frames_def rewind_step_def slice_rev.simps)
  show ?thesis using rewind_splice [OF ne] f by simp
qed



section \<open>The anchor-centred range\<close>

declare bisect_left.simps [simp del]

lemma bisect_left_spec:
  "sorted a \<Longrightarrow> lo \<le> hi \<Longrightarrow> hi \<le> length a \<Longrightarrow> (\<forall>i<lo. a ! i < x) \<Longrightarrow>
     (\<forall>i. hi \<le> i \<and> i < length a \<longrightarrow> x \<le> a ! i) \<Longrightarrow>
     lo \<le> bisect_left a x lo hi \<and> bisect_left a x lo hi \<le> hi
     \<and> (\<forall>i<bisect_left a x lo hi. a ! i < x)
     \<and> (\<forall>i. bisect_left a x lo hi \<le> i \<and> i < length a \<longrightarrow> x \<le> a ! i)"
proof (induction a x lo hi rule: bisect_left.induct)
  case (1 a x lo hi)
  note srt = \<open>sorted a\<close> and le = \<open>lo \<le> hi\<close> and len = \<open>hi \<le> length a\<close>
    and below = \<open>\<forall>i<lo. a ! i < x\<close>
    and above = \<open>\<forall>i. hi \<le> i \<and> i < length a \<longrightarrow> x \<le> a ! i\<close>
  show ?case
  proof (cases "lo < hi")
    case False
    then have "bisect_left a x lo hi = lo" by (subst bisect_left.simps) simp
    moreover from False le have "lo = hi" by simp
    ultimately show ?thesis using below above by simp
  next
    case True
    define mid where "mid = (lo + hi) div 2"
    have mid: "lo \<le> mid" "mid < hi" using True by (simp_all add: mid_def)
    show ?thesis
    proof (cases "a ! mid < x")
      case lt: True
      have low: "\<forall>i<mid + 1. a ! i < x"
      proof (intro allI impI)
        fix i assume "i < mid + 1"
        then have "i \<le> mid" by simp
        moreover have "mid < length a" using mid len by simp
        ultimately have "a ! i \<le> a ! mid" using srt by (simp add: sorted_nth_mono)
        with lt show "a ! i < x" by simp
      qed
      have "mid + 1 \<le> bisect_left a x (mid + 1) hi \<and> bisect_left a x (mid + 1) hi \<le> hi
         \<and> (\<forall>i<bisect_left a x (mid + 1) hi. a ! i < x)
         \<and> (\<forall>i. bisect_left a x (mid + 1) hi \<le> i \<and> i < length a \<longrightarrow> x \<le> a ! i)"
        using "1.IH"(1) [OF True mid_def lt srt _ len low above] mid by simp
      moreover have "bisect_left a x lo hi = bisect_left a x (mid + 1) hi"
        using True lt by (simp add: bisect_left.simps [of a x lo hi] mid_def Let_def)
      ultimately show ?thesis using mid by simp
    next
      case ge: False
      have high: "\<forall>i. mid \<le> i \<and> i < length a \<longrightarrow> x \<le> a ! i"
      proof (intro allI impI)
        fix i assume i: "mid \<le> i \<and> i < length a"
        then have "a ! mid \<le> a ! i" using srt by (simp add: sorted_nth_mono)
        with ge show "x \<le> a ! i" by simp
      qed
      have "lo \<le> bisect_left a x lo mid \<and> bisect_left a x lo mid \<le> mid
         \<and> (\<forall>i<bisect_left a x lo mid. a ! i < x)
         \<and> (\<forall>i. bisect_left a x lo mid \<le> i \<and> i < length a \<longrightarrow> x \<le> a ! i)"
        using "1.IH"(2) [OF True mid_def ge srt mid(1) _ below high] mid len by simp
      moreover have "bisect_left a x lo hi = bisect_left a x lo mid"
        using True ge by (simp add: bisect_left.simps [of a x lo hi] mid_def Let_def)
      ultimately show ?thesis using mid by simp
    qed
  qed
qed

lemma tuple_less_anchor: "((f :: int \<times> string) < (t, '''')) = (fst f < t)"
  by (cases f) (simp add: less_prod_def)

lemma anchor_idx_spec:
  "0 \<le> anchor_idx frames t \<and> anchor_idx frames t \<le> int (length frames)
   \<and> (\<forall>i<nat (anchor_idx frames t). fst (sort frames ! i) < t)
   \<and> (\<forall>i. nat (anchor_idx frames t) \<le> i \<and> i < length frames \<longrightarrow> t \<le> fst (sort frames ! i))"
proof -
  let ?s = "sort frames"
  let ?r = "bisect_left ?s (t, '''') 0 (length ?s)"
  have "0 \<le> ?r \<and> ?r \<le> length ?s \<and> (\<forall>i<?r. ?s ! i < (t, ''''))
      \<and> (\<forall>i. ?r \<le> i \<and> i < length ?s \<longrightarrow> (t, '''') \<le> ?s ! i)"
    by (rule bisect_left_spec) auto
  then show ?thesis
    by (simp add: anchor_idx_def tuple_less_anchor not_less [symmetric])
qed

lemma py_slice_in_range:
  assumes "0 \<le> s" "s \<le> e" "e \<le> int (length xs)"
  shows "py_slice xs s e = take (nat (e - s)) (drop (nat s) xs)"
  using assms by (simp add: py_slice_def clamp_index_def Let_def min_def nat_diff_distrib)

lemma get_range_cases:
  assumes "0 \<le> num_frames_of d"
  shows "get_range frames t d r =
    (let n = num_frames_of d; len = int (length frames);
         start = max 0 (anchor_idx frames t - frames_before_of d r)
     in if start + n > len
        then take (nat (len - max 0 (len - n))) (drop (nat (max 0 (len - n))) (sort frames))
        else take (nat n) (drop (nat start) (sort frames)))"
proof -
  let ?n = "num_frames_of d"
  let ?len = "int (length frames)"
  let ?start = "max 0 (anchor_idx frames t - frames_before_of d r)"
  show ?thesis
  proof (cases "?start + ?n > ?len")
    case True
    have "py_slice (sort frames) (max 0 (?len - ?n)) ?len
        = take (nat (?len - max 0 (?len - ?n))) (drop (nat (max 0 (?len - ?n))) (sort frames))"
      using assms by (intro py_slice_in_range) simp_all
    with True show ?thesis by (simp add: get_range_def Let_def)
  next
    case False
    have "py_slice (sort frames) ?start (?start + ?n)
        = take (nat (?start + ?n - ?start)) (drop (nat ?start) (sort frames))"
      using assms False by (intro py_slice_in_range) simp_all
    with False show ?thesis by (simp add: get_range_def Let_def)
  qed
qed

lemma get_range_length:
  assumes "0 \<le> num_frames_of d"
  shows "length (get_range frames t d r) = min (nat (num_frames_of d)) (length frames)"
proof -
  have "0 \<le> anchor_idx frames t" using anchor_idx_spec [of frames t] by simp
  then show ?thesis using assms
    by (auto simp: get_range_cases Let_def min_def max_def)
qed


lemma frames_before_bounds:
  assumes "0 < d" "0 \<le> r" "r < 1"
  shows "frames_before_of d r = \<lfloor>of_int (num_frames_of d) * r\<rfloor>"
    and "0 \<le> frames_before_of d r"
    and "frames_before_of d r < num_frames_of d"
proof -
  let ?n = "num_frames_of d"
  have n: "0 < ?n" using assms(1) by (simp add: num_frames_of_def)
  have nn: "0 \<le> (of_int ?n :: rat) * r" using n assms(2) by simp
  then show eq: "frames_before_of d r = \<lfloor>of_int ?n * r\<rfloor>"
    by (simp add: frames_before_of_def py_int_def)
  from nn show "0 \<le> frames_before_of d r" unfolding eq by simp
  have "(of_int ?n :: rat) * r < of_int ?n * 1"
    using n assms(3) by (intro mult_strict_left_mono) simp_all
  then have "(of_int ?n :: rat) * r < of_int ?n" by simp
  then show "frames_before_of d r < ?n" unfolding eq by (simp add: floor_less_iff)
qed

text \<open>
  Claim C1, as amended. For a positive duration (the frame count is \<open>30 * duration_sec\<close>)
  \<^verbatim>\<open>get_range\<close> returns exactly \<open>min(totalFrameCount, archiveLength)\<close> frames, for every
  archive, anchor time and ratio. When moreover \<open>0 \<le> center_ratio < 1\<close> and neither the
  left clamp nor the right shift fires, position \<open>floor(totalFrameCount * center_ratio)\<close>
  of the result holds the frame at the anchor index of the sorted archive; that frame
  has a timestamp \<open>\<ge> target_time\<close>, and every frame before it, in the archive and in the
  result, has a smaller one: it is the first frame with timestamp \<open>\<ge> target_time\<close>.
\<close>

theorem get_range_anchor:
  assumes "0 < duration_sec"
  shows "length (get_range frames target_time duration_sec center_ratio)
           = min (nat (num_frames_of duration_sec)) (length frames)
    \<and> (0 \<le> center_ratio \<and> center_ratio < 1
        \<and> 0 \<le> anchor_idx frames target_time - frames_before_of duration_sec center_ratio
        \<and> anchor_idx frames target_time - frames_before_of duration_sec center_ratio
              + num_frames_of duration_sec \<le> int (length frames)
       \<longrightarrow> frames_before_of duration_sec center_ratio
              = \<lfloor>of_int (num_frames_of duration_sec) * center_ratio\<rfloor>
         \<and> nat (frames_before_of duration_sec center_ratio)
              < length (get_range frames target_time duration_sec center_ratio)
         \<and> get_range frames target_time duration_sec center_ratio
              ! nat (frames_before_of duration_sec center_ratio)
              = sort frames ! nat (anchor_idx frames target_time)
         \<and> target_time \<le> fst (sort frames ! nat (anchor_idx frames target_time))
         \<and> (\<forall>i<nat (anchor_idx frames target_time). fst (sort frames ! i) < target_time)
         \<and> (\<forall>j<nat (frames_before_of duration_sec center_ratio).
               fst (get_range frames target_time duration_sec center_ratio ! j) < target_time))"
proof -
  let ?n = "num_frames_of duration_sec"
  let ?b = "frames_before_of duration_sec center_ratio"
  let ?a = "anchor_idx frames target_time"
  let ?res = "get_range frames target_time duration_sec center_ratio"
  have n: "0 < ?n" using assms by (simp add: num_frames_of_def)
  have len: "length ?res = min (nat ?n) (length frames)"
    using n by (intro get_range_length) simp
  have anchor: "0 \<le> ?a" "?a \<le> int (length frames)"
    "\<forall>i<nat ?a. fst (sort frames ! i) < target_time"
    "\<forall>i. nat ?a \<le> i \<and> i < length frames \<longrightarrow> target_time \<le> fst (sort frames ! i)"
    using anchor_idx_spec [of frames target_time] by simp_all
  have main: "frames_before_of duration_sec center_ratio
              = \<lfloor>of_int (num_frames_of duration_sec) * center_ratio\<rfloor>
         \<and> nat ?b < length ?res \<and> ?res ! nat ?b = sort frames ! nat ?a
         \<and> target_time \<le> fst (sort frames ! nat ?a)
         \<and> (\<forall>i<nat ?a. fst (sort frames ! i) < target_time)
         \<and> (\<forall>j<nat ?b. fst (?res ! j) < target_time)"
    if r: "0 \<le> center_ratio" "center_ratio < 1"
      and left: "0 \<le> ?a - ?b" and right: "?a - ?b + ?n \<le> int (length frames)"
  proof -
    have b: "?b = \<lfloor>of_int ?n * center_ratio\<rfloor>" "0 \<le> ?b" "?b < ?n"
      using frames_before_bounds [OF assms r] by simp_all
    have res: "?res = take (nat ?n) (drop (nat (?a - ?b)) (sort frames))"
      using n left right by (simp add: get_range_cases Let_def max_def)
    have nlen: "nat ?n \<le> length frames" using right left by simp
    have bl: "nat ?b < length ?res" using len nlen b(2,3) n by simp
    have pos: "nat (?a - ?b) + nat ?b = nat ?a" using left b(2) by linarith
    have alen: "nat ?a < length frames" using right b(2,3) left by linarith
    have drop_len: "nat (?a - ?b) + nat ?b < length (sort frames)" using pos alen by simp
    have at: "?res ! nat ?b = sort frames ! nat ?a"
      using b(2,3) drop_len by (simp add: res pos)
    have ge: "target_time \<le> fst (sort frames ! nat ?a)" using anchor(4) alen by simp
    have before: "\<forall>j<nat ?b. fst (?res ! j) < target_time"
    proof (intro allI impI)
      fix j assume j: "j < nat ?b"
      then have jn: "j < nat ?n" using b(2,3) by simp
      have "nat (?a - ?b) + j < nat ?a" using j pos by simp
      moreover have "nat (?a - ?b) + j \<le> length (sort frames)" using j drop_len by simp
      ultimately show "fst (?res ! j) < target_time"
        using anchor(3) jn by (simp add: res)
    qed
    show ?thesis using b(1) bl at ge anchor(3) before by simp
  qed
  show ?thesis using len main by blast
qed

theorem get_range_anchor_witness:
  "length (get_range ex_index 1742428950 1 (1 / 2)) = 30
   \<and> get_range ex_index 1742428950 1 (1 / 2) ! 15
       = (1742428950, ''archive/day1/TLS_000000016.jpg'')
   \<and> fst (get_range ex_index 1742428950 1 (1 / 2) ! 14) < 1742428950"
proof -
  have d: "0 < (1::int)" by simp
  have h: "0 \<le> (1 / 2 :: rat) \<and> (1 / 2 :: rat) < 1
      \<and> 0 \<le> anchor_idx ex_index 1742428950 - frames_before_of 1 (1 / 2)
      \<and> anchor_idx ex_index 1742428950 - frames_before_of 1 (1 / 2) + num_frames_of 1
          \<le> int (length ex_index)"
    unfolding ex_index_def by code_simp
  have b: "nat (frames_before_of 1 (1 / 2)) = 15" by code_simp
  have n: "min (nat (num_frames_of 1)) (length ex_index) = 30"
    unfolding ex_index_def by code_simp
  have a: "sort ex_index ! nat (anchor_idx ex_index 1742428950)
      = (1742428950, ''archive/day1/TLS_000000016.jpg'')"
    unfolding ex_index_def by code_simp
  from get_range_anchor [OF d, of ex_index 1742428950 "1 / 2"] h
  have 1: "length (get_range ex_index 1742428950 1 (1 / 2))
        = min (nat (num_frames_of 1)) (length ex_index)"
    and 2: "get_range ex_index 1742428950 1 (1 / 2) ! nat (frames_before_of 1 (1 / 2))
        = sort ex_index ! nat (anchor_idx ex_index 1742428950)"
    and 3: "\<forall>j<nat (frames_before_of 1 (1 / 2)).
        fst (get_range ex_index 1742428950 1 (1 / 2) ! j) < 1742428950"
    by blast+
  from 3 have "fst (get_range ex_index 1742428950 1 (1 / 2) ! 14) < 1742428950"
    unfolding b by simp
  with 1 2 show ?thesis unfolding b n a by simp
qed

text \<open>
  The claim as stated lets \<open>center_ratio = 1\<close>. Then \<open>floor(totalFrameCount * 1)\<close> is the
  frame count itself: with no clamp firing, the frame at the anchor index is the one just
  after the returned range, and the result has no such position. Here the archive has
  31 frames, the duration is one second (30 frames) and the anchor time is that of the
  last frame.
\<close>

theorem get_range_ratio_one_counterexample:
  "(0::rat) \<le> 1 \<and> (1::rat) \<le> 1 \<and> (0::int) < 1
   \<and> 0 \<le> anchor_idx ex_index 1742429100 - frames_before_of 1 1
   \<and> anchor_idx ex_index 1742429100 - frames_before_of 1 1 + num_frames_of 1
        \<le> int (length ex_index)
   \<and> length (get_range ex_index 1742429100 1 1) = 30
   \<and> frames_before_of 1 1 = 30
   \<and> sort ex_index ! nat (anchor_idx ex_index 1742429100)
        = (1742429100, ''archive/day1/TLS_000000031.jpg'')
   \<and> (1742429100, ''archive/day1/TLS_000000031.jpg'')
        \<notin> set (get_range ex_index 1742429100 1 1)"
  unfolding ex_index_def by code_simp

section \<open>Index construction\<close>

lemma index_loop_concat: "index_loop session walk acc = acc @ concat (map session walk)"
  by (induction walk arbitrary: acc) simp_all

lemma index_loop_skip:
  "session e = [] \<Longrightarrow> index_loop session (before @ e # after) [] = index_loop session (before @ after) []"
  by (simp add: index_loop_concat)

lemma session_gh_skipped:
  assumes "exif (path_join root_dir (hd (tls_files_of files))) = None
         \<or> exif (path_join root_dir (last (tls_files_of files))) = None"
  shows "session_gh exif c (root_dir, dirs, files) = []"
  using assms by (auto simp: session_gh_def Let_def split: option.splits)

lemma session_ov_skipped:
  assumes "exif (path_join root_dir (hd (tls_files_of files))) = None
         \<or> exif (path_join root_dir (last (tls_files_of files))) = None"
  shows "session_ov exif (root_dir, dirs, files) = []"
  using assms by (auto simp: session_ov_def Let_def split: option.splits)

lemma map_snd_enumerate_join:
  "map snd (map (\<lambda>(i, f). (g i, path_join r f)) (enumerate n fs)) = map (path_join r) fs"
  by (induction fs arbitrary: n) simp_all

lemma map_snd_frames_ov: "map snd (frames_ov r fs t0) = map (path_join r) fs"
  unfolding frames_ov_def by (rule map_snd_enumerate_join)

lemma map_snd_frames_gh: "map snd (frames_gh r fs t0 tn) = map (path_join r) fs"
  unfolding frames_gh_def Let_def by (rule map_snd_enumerate_join)

lemma session_gh_whole:
  "session_gh exif c (root_dir, dirs, files) = []
   \<or> map snd (session_gh exif c (root_dir, dirs, files)) = map (path_join root_dir) (tls_files_of files)"
  by (auto simp: session_gh_def Let_def map_snd_frames_gh split: option.splits)

lemma session_ov_whole:
  "session_ov exif (root_dir, dirs, files) = []
   \<or> map snd (session_ov exif (root_dir, dirs, files)) = map (path_join root_dir) (tls_files_of files)"
  by (auto simp: session_ov_def Let_def map_snd_frames_ov split: option.splits)

text \<open>
  Claim C9. In both index constructions, when the read of the first or of the last
  frame's capture time fails, the session contributes no frame, and the index is the one
  built from the walk without that directory: the other sessions are processed as if it
  were not there. In general a session contributes either nothing or every one of its
  matching files (last conjuncts): never a part. The body of the loop has no operation
  that can raise on these inputs: the first and last file are read only when the list of
  matching files is not empty (a directory without one is skipped before any read), the
  comparison with the cutoff only when the first read gave a time, and the division by
  \<open>count - 1\<close> only when \<open>count > 1\<close>. No other timestamp stands in for a failed read.
\<close>

theorem session_skipped_atomically:
  assumes "exif (path_join root_dir (hd (tls_files_of files))) = None
         \<or> exif (path_join root_dir (last (tls_files_of files))) = None"
  shows "session_gh exif start_cutoff (root_dir, dirs, files) = []
    \<and> session_ov exif (root_dir, dirs, files) = []
    \<and> GlobalTimeline_gh exif start_cutoff (before @ (root_dir, dirs, files) # after)
        = GlobalTimeline_gh exif start_cutoff (before @ after)
    \<and> GlobalTimeline_ov exif (before @ (root_dir, dirs, files) # after)
        = GlobalTimeline_ov exif (before @ after)
    \<and> (session_gh exif' start_cutoff' (root_dir', dirs', files') = []
        \<or> map snd (session_gh exif' start_cutoff' (root_dir', dirs', files'))
            = map (path_join root_dir') (tls_files_of files'))
    \<and> (session_ov exif' (root_dir', dirs', files') = []
        \<or> map snd (session_ov exif' (root_dir', dirs', files'))
            = map (path_join root_dir') (tls_files_of files'))"
proof -
  have g: "session_gh exif start_cutoff (root_dir, dirs, files) = []"
    using assms by (rule session_gh_skipped)
  have v: "session_ov exif (root_dir, dirs, files) = []"
    using assms by (rule session_ov_skipped)
  show ?thesis
    using g v session_gh_whole [of exif' start_cutoff' root_dir' dirs' files']
      session_ov_whole [of exif' root_dir' dirs' files']
    by (simp add: GlobalTimeline_gh_def GlobalTimeline_ov_def index_loop_skip)
qed

theorem session_skipped_atomically_witness:
  "skip_exif (path_join ''archive/a'' (last (tls_files_of (map TLS_name [1..<4])))) = None
   \<and> GlobalTimeline_ov skip_exif skip_walk
       = [(1765800000, ''archive/b/TLS_000000001.jpg''),
          (1765800010, ''archive/b/TLS_000000002.jpg'')]
   \<and> GlobalTimeline_gh skip_exif None skip_walk
       = GlobalTimeline_gh skip_exif None
           [(''archive'', [''a'', ''b''], []), (''archive/b'', [], map TLS_name [1..<3])]"
proof -
  have f: "skip_exif (path_join ''archive/a'' (last (tls_files_of (map TLS_name [1..<4])))) = None"
    by code_simp
  then have h: "skip_exif (path_join ''archive/a'' (hd (tls_files_of (map TLS_name [1..<4])))) = None
      \<or> skip_exif (path_join ''archive/a'' (last (tls_files_of (map TLS_name [1..<4])))) = None"
    by simp
  have w: "skip_walk = [(''archive'', [''a'', ''b''], [])]
      @ (''archive/a'', [], map TLS_name [1..<4]) # [(''archive/b'', [], map TLS_name [1..<3])]"
    by (simp add: skip_walk_def)
  have r: "GlobalTimeline_ov skip_exif
        ([(''archive'', [''a'', ''b''], [])] @ [(''archive/b'', [], map TLS_name [1..<3])])
      = [(1765800000, ''archive/b/TLS_000000001.jpg''),
         (1765800010, ''archive/b/TLS_000000002.jpg'')]"
    by code_simp
  from session_skipped_atomically [OF h, where start_cutoff = None and dirs = "[]"
      and before = "[(''archive'', [''a'', ''b''], [])]"
      and after = "[(''archive/b'', [], map TLS_name [1..<3])]"]
  have "GlobalTimeline_gh skip_exif None skip_walk
        = GlobalTimeline_gh skip_exif None
            ([(''archive'', [''a'', ''b''], [])] @ [(''archive/b'', [], map TLS_name [1..<3])])"
    and "GlobalTimeline_ov skip_exif skip_walk
        = GlobalTimeline_ov skip_exif
            ([(''archive'', [''a'', ''b''], [])] @ [(''archive/b'', [], map TLS_name [1..<3])])"
    unfolding w by blast+
  with f r show ?thesis by simp
qed

lemma sorted_map_fst_of_sorted:
  fixes xs :: "('a::linorder \<times> 'b::linorder) list"
  assumes "sorted xs"
  shows "sorted (map fst xs)"
proof -
  have "sorted_wrt (\<lambda>x y. fst x \<le> fst y) xs"
    using assms by (rule sorted_wrt_mono_rel [rotated]) (auto simp: less_eq_prod_def)
  then show ?thesis by (simp add: sorted_map)
qed

lemma sorted_ties_by_path:
  fixes xs :: "('a::linorder \<times> 'b::linorder) list"
  assumes "sorted xs" "i < j" "j < length xs" "fst (xs ! i) = fst (xs ! j)"
  shows "snd (xs ! i) \<le> snd (xs ! j)"
proof -
  have "xs ! i \<le> xs ! j" using assms(1-3) by (simp add: sorted_nth_mono)
  with assms(4) show ?thesis by (auto simp: less_eq_prod_def)
qed

text \<open>
  Claim C3, as amended. Whatever the visiting order (the walk is any list), both
  constructions end with timestamps in non-decreasing order. In \<^verbatim>\<open>automate_goldenhour.py\<close> and
  \<^verbatim>\<open>automate_rewind.py\<close> the sort is by timestamp only and stable: the frames of each
  timestamp keep their discovery order. In \<^verbatim>\<open>automate_overlapping_timelapse.py\<close> the sort
  compares the tuples, so the index is a rearrangement of the accumulator in which
  frames of equal timestamp stand in ascending order of their paths.
\<close>

theorem index_sorted:
  "sorted (map fst (GlobalTimeline_gh exif start_cutoff walk))
   \<and> (\<forall>t. filter (\<lambda>f. fst f = t) (GlobalTimeline_gh exif start_cutoff walk)
          = filter (\<lambda>f. fst f = t) (index_loop (session_gh exif start_cutoff) walk []))
   \<and> set (GlobalTimeline_gh exif start_cutoff walk)
          = set (index_loop (session_gh exif start_cutoff) walk [])
   \<and> sorted (map fst (GlobalTimeline_ov exif walk))
   \<and> set (GlobalTimeline_ov exif walk) = set (index_loop (session_ov exif) walk [])
   \<and> length (GlobalTimeline_ov exif walk) = length (index_loop (session_ov exif) walk [])
   \<and> (\<forall>i j. i < j \<and> j < length (GlobalTimeline_ov exif walk)
          \<and> fst (GlobalTimeline_ov exif walk ! i) = fst (GlobalTimeline_ov exif walk ! j)
        \<longrightarrow> snd (GlobalTimeline_ov exif walk ! i) \<le> snd (GlobalTimeline_ov exif walk ! j))"
proof -
  have ov: "sorted (GlobalTimeline_ov exif walk)" by (simp add: GlobalTimeline_ov_def)
  have "sorted (map fst (GlobalTimeline_ov exif walk))"
    using ov by (rule sorted_map_fst_of_sorted)
  moreover have "\<forall>i j. i < j \<and> j < length (GlobalTimeline_ov exif walk)
          \<and> fst (GlobalTimeline_ov exif walk ! i) = fst (GlobalTimeline_ov exif walk ! j)
        \<longrightarrow> snd (GlobalTimeline_ov exif walk ! i) \<le> snd (GlobalTimeline_ov exif walk ! j)"
    using sorted_ties_by_path [OF ov] by blast
  moreover have "sorted (map fst (GlobalTimeline_gh exif start_cutoff walk))"
    by (simp add: GlobalTimeline_gh_def)
  moreover have "\<forall>t. filter (\<lambda>f. fst f = t) (GlobalTimeline_gh exif start_cutoff walk)
          = filter (\<lambda>f. fst f = t) (index_loop (session_gh exif start_cutoff) walk [])"
    by (simp add: GlobalTimeline_gh_def sort_key_stable)
  ultimately show ?thesis
    by (simp add: GlobalTimeline_gh_def GlobalTimeline_ov_def)
qed

text \<open>
  The claim as stated fails in the overlapping variant: \<open>archive/b\<close> is visited first, yet
  its frame comes second in the index.
\<close>

theorem tie_order_counterexample:
  "index_loop (session_ov tie_exif) tie_walk []
     = [(1765800000, ''archive/b/TLS_000000001.jpg''), (1765800000, ''archive/a/TLS_000000001.jpg'')]
   \<and> GlobalTimeline_ov tie_exif tie_walk
     = [(1765800000, ''archive/a/TLS_000000001.jpg''), (1765800000, ''archive/b/TLS_000000001.jpg'')]
   \<and> filter (\<lambda>f. fst f = 1765800000) (GlobalTimeline_ov tie_exif tie_walk)
     \<noteq> filter (\<lambda>f. fst f = 1765800000) (index_loop (session_ov tie_exif) tie_walk [])"
  by code_simp

theorem index_sorted_witness:
  "GlobalTimeline_gh tie_exif None tie_walk
     = [(1765800000, ''archive/b/TLS_000000001.jpg''), (1765800000, ''archive/a/TLS_000000001.jpg'')]
   \<and> snd (GlobalTimeline_ov tie_exif tie_walk ! 0) \<le> snd (GlobalTimeline_ov tie_exif tie_walk ! 1)
   \<and> GlobalTimeline_ov tie_exif tie_walk
     = [(1765800000, ''archive/a/TLS_000000001.jpg''), (1765800000, ''archive/b/TLS_000000001.jpg'')]"
proof -
  have h: "(0::nat) < 1 \<and> 1 < length (GlobalTimeline_ov tie_exif tie_walk)
      \<and> fst (GlobalTimeline_ov tie_exif tie_walk ! 0) = fst (GlobalTimeline_ov tie_exif tie_walk ! 1)"
    by code_simp
  have e: "GlobalTimeline_gh tie_exif None tie_walk
     = [(1765800000, ''archive/b/TLS_000000001.jpg''), (1765800000, ''archive/a/TLS_000000001.jpg'')]"
    by code_simp
  have v: "GlobalTimeline_ov tie_exif tie_walk
     = [(1765800000, ''archive/a/TLS_000000001.jpg''), (1765800000, ''archive/b/TLS_000000001.jpg'')]"
    by code_simp
  from index_sorted [of tie_exif None tie_walk] h
  have "snd (GlobalTimeline_ov tie_exif tie_walk ! 0) \<le> snd (GlobalTimeline_ov tie_exif tie_walk ! 1)"
    by blast
  with e v show ?thesis by blast
qed

section \<open>Timestamp interpolation\<close>

lemma round_half_even_of_int: "round_half_even (of_int k :: rat) = k"
  by (simp add: round_half_even_def Let_def)

lemma round_half_even_error: "\<bar>of_int (round_half_even x) - x\<bar> \<le> 1 / (2::rat)"
proof -
  define d where "d = x - of_int \<lfloor>x\<rfloor>"
  have d: "0 \<le> d" "d < 1" unfolding d_def by linarith+
  have "of_int (round_half_even x) - x =
      (if d < 1 / 2 then - d else if 1 / 2 < d then 1 - d
       else if even \<lfloor>x\<rfloor> then - d else 1 - d)"
    by (simp add: round_half_even_def Let_def d_def)
  then show ?thesis using d by (simp add: abs_if split: if_splits)
qed

lemma timedelta_seconds_exact:
  assumes "x * 1000000 = of_int k"
  shows "timedelta_seconds x = x"
proof -
  have "timedelta_seconds x = of_int k / 1000000"
    by (simp add: timedelta_seconds_def assms round_half_even_of_int)
  also have "\<dots> = x" using assms [symmetric] by simp
  finally show ?thesis .
qed

lemma timedelta_seconds_error: "\<bar>timedelta_seconds x - x\<bar> \<le> 1 / 2000000"
proof -
  define e where "e = of_int (round_half_even (x * 1000000)) - x * 1000000"
  have e: "\<bar>e\<bar> \<le> 1 / 2" unfolding e_def by (rule round_half_even_error)
  have "timedelta_seconds x - x = e / 1000000"
    by (simp add: timedelta_seconds_def e_def diff_divide_distrib)
  then have "\<bar>timedelta_seconds x - x\<bar> = \<bar>e\<bar> / 1000000" by (simp only: abs_divide)
  also have "\<dots> \<le> (1 / 2) / 1000000" using e by (intro divide_right_mono) simp_all
  finally show ?thesis by simp
qed

lemma frames_gh_nth:
  assumes "i < length fs"
  shows "frames_gh r fs t0 tn ! i =
    (of_int t0 + timedelta_seconds (of_nat i *
        (if length fs > 1 then of_int (tn - t0) / of_nat (length fs - 1) else 10)),
     path_join r (fs ! i))"
  using assms by (simp add: frames_gh_def Let_def nth_enumerate_eq)

lemma frames_ov_nth:
  assumes "i < length fs"
  shows "frames_ov r fs t0 ! i = (t0 + int i * 10, path_join r (fs ! i))"
  using assms by (simp add: frames_ov_def nth_enumerate_eq)

text \<open>
  Claim C2, as amended. For a session of \<open>N \<ge> 2\<close> frames whose first and last capture
  times \<open>t0\<close> and \<open>tn\<close> were read, frame \<open>i\<close>:
  \<^item> in \<^verbatim>\<open>automate_goldenhour.py\<close> and \<^verbatim>\<open>automate_rewind.py\<close> gets \<open>t0\<close> plus
    \<open>i * (tn - t0) / (N - 1)\<close> seconds rounded to the microsecond, so within half a
    microsecond of the stated value, and exactly that value whenever it is a whole
    number of microseconds;
  \<^item> in \<^verbatim>\<open>automate_overlapping_timelapse.py\<close> gets \<open>t0 + 10 * i\<close> seconds whatever \<open>tn\<close> is,
    which is the stated value when \<open>tn - t0 = 10 * (N - 1)\<close> seconds.
\<close>

theorem interpolated_timestamp:
  assumes "2 \<le> length tls_files" and "i < length tls_files"
  shows "fst (frames_gh root_dir tls_files t0 tn ! i)
        = of_int t0 + timedelta_seconds
            (of_nat i * (of_int (tn - t0) / of_nat (length tls_files - 1)))
    \<and> \<bar>fst (frames_gh root_dir tls_files t0 tn ! i)
         - (of_int t0 + of_nat i * of_int (tn - t0) / of_nat (length tls_files - 1))\<bar>
        \<le> 1 / 2000000
    \<and> (int (length tls_files - 1) dvd int i * (tn - t0) * 1000000
        \<longrightarrow> fst (frames_gh root_dir tls_files t0 tn ! i)
            = of_int t0 + of_nat i * of_int (tn - t0) / of_nat (length tls_files - 1))
    \<and> fst (frames_ov root_dir tls_files t0 ! i) = t0 + 10 * int i
    \<and> (tn - t0 = 10 * int (length tls_files - 1)
        \<longrightarrow> (of_int (fst (frames_ov root_dir tls_files t0 ! i)) :: rat)
            = of_int t0 + of_nat i * of_int (tn - t0) / of_nat (length tls_files - 1))"
proof -
  let ?n = "length tls_files - 1"
  let ?x = "of_nat i * (of_int (tn - t0) / of_nat ?n) :: rat"
  have n: "0 < ?n" using assms(1) by simp
  have gh: "fst (frames_gh root_dir tls_files t0 tn ! i) = of_int t0 + timedelta_seconds ?x"
    using assms by (simp add: frames_gh_nth)
  have err: "\<bar>fst (frames_gh root_dir tls_files t0 tn ! i)
         - (of_int t0 + of_nat i * of_int (tn - t0) / of_nat ?n)\<bar> \<le> 1 / 2000000"
    using timedelta_seconds_error [of ?x] by (simp add: gh)
  have exact: "fst (frames_gh root_dir tls_files t0 tn ! i)
            = of_int t0 + of_nat i * of_int (tn - t0) / of_nat ?n"
    if "int ?n dvd int i * (tn - t0) * 1000000"
  proof -
    from that obtain k where k: "int i * (tn - t0) * 1000000 = int ?n * k" by (auto simp: dvd_def)
    have "?x * 1000000 = of_int (int i * (tn - t0) * 1000000) / of_int (int ?n)"
      by simp
    also have "\<dots> = of_int k" using n by (simp only: k) simp
    finally have "timedelta_seconds ?x = ?x" by (rule timedelta_seconds_exact)
    then show ?thesis by (simp add: gh)
  qed
  have ov: "fst (frames_ov root_dir tls_files t0 ! i) = t0 + 10 * int i"
    using assms(2) by (simp add: frames_ov_nth)
  have same: "(of_int (fst (frames_ov root_dir tls_files t0 ! i)) :: rat)
            = of_int t0 + of_nat i * of_int (tn - t0) / of_nat ?n"
    if "tn - t0 = 10 * int ?n"
  proof -
    define m where "m = ?n"
    have m: "(of_nat m :: rat) \<noteq> 0" using n by (simp add: m_def)
    have "(of_int (tn - t0) :: rat) = 10 * of_nat m" by (simp only: that m_def)
    then have "of_nat i * of_int (tn - t0) / (of_nat m :: rat) = 10 * of_nat i"
      using m by simp
    then show ?thesis by (simp add: ov m_def)
  qed
  show ?thesis using gh err exact ov same by blast
qed

text \<open>
  The session of 101 frames from 12:00:00 to 12:16:40 (of 2025-12-15, whose midnight is
  second 1765756800): frame 50 is at 12:08:20 in every variant.
\<close>

theorem interpolated_timestamp_witness:
  "fst (frames_gh ''archive/day1'' (map TLS_name [1..<102])
          (1765756800 + hms 12 0 0) (1765756800 + hms 12 16 40) ! 50)
     = of_int (1765756800 + hms 12 8 20)
   \<and> fst (frames_ov ''archive/day1'' (map TLS_name [1..<102]) (1765756800 + hms 12 0 0) ! 50)
     = 1765756800 + hms 12 8 20"
proof -
  have l: "length (map TLS_name [1..<102]) = 101" by simp
  have a: "2 \<le> length (map TLS_name [1..<102])" "50 < length (map TLS_name [1..<102])"
    by simp_all
  have d: "int (length (map TLS_name [1..<102]) - 1)
      dvd int 50 * ((1765756800 + hms 12 16 40) - (1765756800 + hms 12 0 0)) * 1000000"
    by (simp add: hms_def)
  have t: "(1765756800 + hms 12 16 40) - (1765756800 + hms 12 0 0)
      = 10 * int (length (map TLS_name [1..<102]) - 1)"
    by (simp add: hms_def)
  from interpolated_timestamp [OF a, of "''archive/day1''" "1765756800 + hms 12 0 0"
      "1765756800 + hms 12 16 40"] d t
  have "fst (frames_gh ''archive/day1'' (map TLS_name [1..<102])
          (1765756800 + hms 12 0 0) (1765756800 + hms 12 16 40) ! 50)
      = of_int (1765756800 + hms 12 0 0) + of_nat 50
          * of_int ((1765756800 + hms 12 16 40) - (1765756800 + hms 12 0 0))
          / of_nat (length (map TLS_name [1..<102]) - 1)"
    and "fst (frames_ov ''archive/day1'' (map TLS_name [1..<102]) (1765756800 + hms 12 0 0) ! 50)
      = 1765756800 + hms 12 0 0 + 10 * int 50"
    by blast+
  then show ?thesis by (simp add: hms_def)
qed

lemma timedelta_third: "timedelta_seconds (1 / 3) = 333333 / 1000000"
proof -
  have f: "\<lfloor>(1000000 :: rat) / 3\<rfloor> = 333333" by (rule floor_unique) simp_all
  have "round_half_even ((1000000 :: rat) / 3) = 333333"
    by (simp add: round_half_even_def Let_def f)
  then show ?thesis by (simp add: timedelta_seconds_def)
qed

text \<open>
  The claim as stated fails. In the overlapping variant a session of two frames read at
  \<open>t0\<close> and \<open>t0 + 5\<close> seconds gives frame 1 the time \<open>t0 + 10\<close>. In the other variants a
  session of four frames spanning one second gives frame 1 the time \<open>t0 + 0.333333\<close>, as
  a \<open>datetime\<close> holds microseconds.
\<close>

theorem interpolation_counterexample:
  "drift_exif 5 ''archive/day1/TLS_000000001.jpg'' = Some 1765800000
   \<and> drift_exif 5 ''archive/day1/TLS_000000002.jpg'' = Some 1765800005
   \<and> fst (session_ov (drift_exif 5) (''archive/day1'', [], map TLS_name [1..<3]) ! 1) = 1765800010
   \<and> (1765800010 :: rat) \<noteq> 1765800000 + 1 * (1765800005 - 1765800000) / (2 - 1)
   \<and> fst (frames_gh ''archive/day1'' (map TLS_name [1..<5]) 1765800000 1765800001 ! 1)
       = 1765800000 + 333333 / 1000000
   \<and> (1765800000 + 333333 / 1000000 :: rat) \<noteq> 1765800000 + 1 * (1765800001 - 1765800000) / (4 - 1)"
proof -
  have a: "drift_exif 5 ''archive/day1/TLS_000000001.jpg'' = Some 1765800000
   \<and> drift_exif 5 ''archive/day1/TLS_000000002.jpg'' = Some 1765800005
   \<and> fst (session_ov (drift_exif 5) (''archive/day1'', [], map TLS_name [1..<3]) ! 1) = 1765800010"
    by code_simp
  have l: "1 < length (map TLS_name [1..<5])" by simp
  have g: "fst (frames_gh ''archive/day1'' (map TLS_name [1..<5]) 1765800000 1765800001 ! 1)
       = 1765800000 + 333333 / 1000000"
  proof -
    have n: "length (map TLS_name [1..<5]) = 4" by simp
    have "fst (frames_gh ''archive/day1'' (map TLS_name [1..<5]) 1765800000 1765800001 ! 1)
        = of_int 1765800000 + timedelta_seconds (of_nat 1 *
            (if length (map TLS_name [1..<5]) > 1
             then of_int (1765800001 - 1765800000) / of_nat (length (map TLS_name [1..<5]) - 1)
             else 10))"
      by (simp only: frames_gh_nth [OF l] fst_conv)
    also have "\<dots> = 1765800000 + timedelta_seconds (1 / 3)"
      by (simp only: n) simp
    finally show ?thesis by (simp only: timedelta_third)
  qed
  have r: "(1765800010 :: rat) \<noteq> 1765800000 + 1 * (1765800005 - 1765800000) / (2 - 1)"
    "(1765800000 + 333333 / 1000000 :: rat) \<noteq> 1765800000 + 1 * (1765800001 - 1765800000) / (4 - 1)"
    by simp_all
  show ?thesis using a g r by blast
qed

section \<open>Window capping\<close>

text \<open>
  Claim C5. With the raw window \<open>[rs, re] = [sunset - 150 min, sunset + 120 min]\<close> and the
  bounds \<open>[bs, be]\<close> (17:00 and 21:00 of the date), \<^verbatim>\<open>automate_goldenhour.py\<close> queries the index
  with exactly \<open>[min rs bs, min re be]\<close>: when \<open>rs < bs\<close> the start is \<open>rs\<close> (not capped), when
  \<open>rs > bs\<close> it is \<open>bs\<close> (capped). \<^verbatim>\<open>automate_rewind.py\<close> caps the start in the same way; its
  end is the bound itself, the nautical-dusk event: that window has no raw end, so its
  end is \<open>min re be\<close> for every raw end \<open>re\<close> not before the bound.
\<close>

theorem capped_window:
  "goldenhour_window sunset target_5pm target_9pm
      = (min (sunset - 150 * 60) target_5pm, min (sunset + 120 * 60) target_9pm)
   \<and> goldenhour_frames timeline sunset target_5pm target_9pm
      = filter (\<lambda>f. min (sunset - 150 * 60) target_5pm \<le> fst f
                   \<and> fst f \<le> min (sunset + 120 * 60) target_9pm) timeline
   \<and> (sunset - 150 * 60 < target_5pm
        \<longrightarrow> fst (goldenhour_window sunset target_5pm target_9pm) = sunset - 150 * 60)
   \<and> (target_5pm < sunset - 150 * 60
        \<longrightarrow> fst (goldenhour_window sunset target_5pm target_9pm) = target_5pm)
   \<and> rewind_window sunset nautical_dusk target_5pm
      = (min (sunset - 150 * 60) target_5pm, nautical_dusk)
   \<and> rewind_window_frames timeline sunset nautical_dusk target_5pm
      = filter (\<lambda>f. min (sunset - 150 * 60) target_5pm \<le> fst f \<and> fst f \<le> nautical_dusk) timeline
   \<and> (nautical_dusk \<le> raw_end
        \<longrightarrow> snd (rewind_window sunset nautical_dusk target_5pm) = min raw_end nautical_dusk)"
  by (simp add: goldenhour_window_def goldenhour_frames_def rewind_window_def
      rewind_window_frames_def get_time_window_def Let_def)

theorem capped_window_witness:
  "goldenhour_window 1765846380 1765846800 1765861200 = (1765837380, 1765853580)
   \<and> goldenhour_window 1750563300 1750550400 1750564800 = (1750550400, 1750564800)
   \<and> rewind_window 1765846380 1765850100 1765846800 = (1765837380, 1765850100)"
proof -
  have n: "(1765846380 :: rat) - 150 * 60 < 1765846800" by simp
  have c: "(1750550400 :: rat) < 1750563300 - 150 * 60" by simp
  from capped_window [where sunset = 1765846380 and target_5pm = 1765846800
      and target_9pm = 1765861200 and nautical_dusk = 1765850100] n
  have 1: "goldenhour_window 1765846380 1765846800 1765861200
      = (min (1765846380 - 150 * 60) 1765846800, min (1765846380 + 120 * 60) 1765861200)"
    and 2: "rewind_window 1765846380 1765850100 1765846800
      = (min (1765846380 - 150 * 60) 1765846800, 1765850100)"
    by blast+
  from capped_window [where sunset = 1750563300 and target_5pm = 1750550400
      and target_9pm = 1750564800] c
  have 3: "goldenhour_window 1750563300 1750550400 1750564800
      = (min (1750563300 - 150 * 60) 1750550400, min (1750563300 + 120 * 60) 1750564800)"
    by blast
  show ?thesis unfolding 1 2 3 by simp
qed


section \<open>The solar calculator\<close>

lemma pi_ge_3: "3 \<le> pi"
proof -
  have "sin (pi / 6) \<le> pi / 6" by (rule sin_x_le_x) simp
  then show ?thesis by (simp add: sin_30)
qed

lemma decl_lin:
  fixes c1 s1 c2 s2 c3 s3 :: real
  assumes "- 1 \<le> c1" "c1 \<le> 1" "- 1 \<le> s1" "s1 \<le> 1" "- 1 \<le> c2" "c2 \<le> 1"
    "- 1 \<le> s2" "s2 \<le> 1" "- 1 \<le> c3" "c3 \<le> 1" "- 1 \<le> s3" "s3 \<le> 1"
  shows "0.006918 - 0.399912 * c1 + 0.070257 * s1 - 0.006758 * c2 + 0.000907 * s2
     - 0.002697 * c3 + 0.00148 * s3 \<le> 0.488929"
   and "- 0.488929 \<le> 0.006918 - 0.399912 * c1 + 0.070257 * s1 - 0.006758 * c2 + 0.000907 * s2
     - 0.002697 * c3 + 0.00148 * s3"
  using assms by simp_all

lemma eqtime_lin:
  fixes c1 s1 c2 s2 :: real
  assumes "- 1 \<le> c1" "c1 \<le> 1" "- 1 \<le> s1" "s1 \<le> 1" "- 1 \<le> c2" "c2 \<le> 1"
    "- 1 \<le> s2" "s2 \<le> 1"
  shows "229.18 * (0.000075 + 0.001868 * c1 - 0.032077 * s1
               - 0.014615 * c2 - 0.040849 * s2) \<le> 20.51"
    and "- 20.51 \<le> 229.18 * (0.000075 + 0.001868 * c1 - 0.032077 * s1
               - 0.014615 * c2 - 0.040849 * s2)"
  using assms by simp_all

lemma decl_bound: "\<bar>decl_of g\<bar> \<le> 0.488929"
proof -
  have "decl_of g \<le> 0.488929" unfolding decl_of_def by (rule decl_lin(1)) simp_all
  moreover have "- 0.488929 \<le> decl_of g" unfolding decl_of_def by (rule decl_lin(2)) simp_all
  ultimately show ?thesis by (simp only: abs_le_iff) simp
qed

lemma eqtime_bound: "\<bar>eqtime_of g\<bar> \<le> 20.51"
proof -
  have "eqtime_of g \<le> 20.51" unfolding eqtime_of_def by (rule eqtime_lin(1)) simp_all
  moreover have "- 20.51 \<le> eqtime_of g" unfolding eqtime_of_def by (rule eqtime_lin(2)) simp_all
  ultimately show ?thesis by (simp only: abs_le_iff) simp
qed

lemma rad_lat_bounds: "0 < radians LATITUDE" "radians LATITUDE < pi / 4"
  by (simp_all add: radians_def LATITUDE_def)

lemma cos_lat_bound: "sqrt 2 / 2 \<le> cos (radians LATITUDE)"
proof -
  have "cos (pi / 4) \<le> cos (radians LATITUDE)"
    using rad_lat_bounds by (intro cos_monotone_0_pi_le) simp_all
  then show ?thesis by (simp add: cos_45)
qed

lemma tan_lat_bound: "0 \<le> tan (radians LATITUDE)" "tan (radians LATITUDE) \<le> 1"
proof -
  show "0 \<le> tan (radians LATITUDE)"
    using rad_lat_bounds by (intro tan_pos_pi2_le) simp_all
  have "tan (radians LATITUDE) \<le> tan (pi / 4)"
    using rad_lat_bounds by (intro tan_mono_le) simp_all
  then show "tan (radians LATITUDE) \<le> 1" by (simp add: tan_45)
qed

lemma small_angle:
  assumes "\<bar>d\<bar> \<le> 0.488929"
  shows "sqrt 3 / 2 \<le> cos d" and "\<bar>tan d\<bar> \<le> 1 / sqrt 3"
proof -
  have d: "0 \<le> \<bar>d\<bar>" "\<bar>d\<bar> \<le> pi / 6" using assms pi_ge_3 by simp_all
  have lo: "- (pi / 2) < \<bar>d\<bar>"
  proof -
    have "- (pi / 2) < 0" by simp
    also have "0 \<le> \<bar>d\<bar>" by simp
    finally show ?thesis .
  qed
  have hi: "pi / 6 < pi / 2" by simp
  have "cos (pi / 6) \<le> cos \<bar>d\<bar>"
    using d by (intro cos_monotone_0_pi_le) simp_all
  then show "sqrt 3 / 2 \<le> cos d" by (simp add: cos_30)
  have "tan \<bar>d\<bar> \<le> tan (pi / 6)"
    using lo d(2) hi by (rule tan_mono_le)
  moreover have "\<bar>d\<bar> < pi / 2" using d(2) hi by linarith
  then have "0 \<le> tan \<bar>d\<bar>" using d(1) by (intro tan_pos_pi2_le)
  moreover have "\<bar>tan d\<bar> = \<bar>tan \<bar>d\<bar>\<bar>" by (simp add: abs_if)
  ultimately show "\<bar>tan d\<bar> \<le> 1 / sqrt 3" by (simp add: tan_30)
qed

lemma sqrt_numeric: "1.4 \<le> sqrt 2" "1.72 \<le> sqrt 3"
  by (rule real_le_rsqrt, simp add: power2_eq_square)+

lemma cos_factors:
  "0.7 \<le> cos (radians LATITUDE)" "0.86 \<le> cos (decl_of g)"
proof -
  show "0.7 \<le> cos (radians LATITUDE)" using cos_lat_bound sqrt_numeric by linarith
  show "0.86 \<le> cos (decl_of g)"
    using small_angle(1) [OF decl_bound, of g] sqrt_numeric by linarith
qed

lemma denominator_bound: "0.602 \<le> cos (radians LATITUDE) * cos (decl_of g)"
proof -
  have "0.7 * 0.86 \<le> cos (radians LATITUDE) * cos (decl_of g)"
    using cos_factors(1) cos_factors(2) [of g] by (intro mult_mono) simp_all
  then show ?thesis by simp
qed

lemma cos_ha_of_eq:
  "cos_ha_of z (decl_of g) =
     Inr (cos (radians z) / (cos (radians LATITUDE) * cos (decl_of g))
          - tan (radians LATITUDE) * tan (decl_of g))"
proof -
  have "cos (radians LATITUDE) \<noteq> 0" "cos (decl_of g) \<noteq> 0"
    using cos_factors(1) cos_factors(2) [of g] by auto
  then show ?thesis by (simp add: cos_ha_of_def Let_def)
qed


lemma fmod_range:
  assumes "0 < m"
  shows "0 \<le> fmod x m" and "fmod x m < m"
proof -
  have "of_int \<lfloor>x / m\<rfloor> * m \<le> x"
    using assms of_int_floor_le [of "x / m"] by (simp only: pos_le_divide_eq)
  then show "0 \<le> fmod x m" by (simp add: fmod_def mult.commute)
  have "x / m < of_int \<lfloor>x / m\<rfloor> + 1" by linarith
  with assms have "x < (of_int \<lfloor>x / m\<rfloor> + 1) * m" by (simp only: pos_divide_less_eq)
  then show "fmod x m < m" by (simp add: fmod_def algebra_simps)
qed

lemma fmod_id:
  assumes "0 \<le> x" "x < m"
  shows "fmod x m = x"
proof -
  have "0 < m" using assms by linarith
  then have "0 \<le> x / m" "x / m < 1" using assms by simp_all
  then have "\<lfloor>x / m\<rfloor> = 0" by (simp add: floor_eq_iff)
  then show ?thesis by (simp add: fmod_def)
qed

lemma py_int_of_int: "py_int (of_int k :: real) = k"
  by (simp add: py_int_def)

lemma py_int_nonneg: "0 \<le> (x::real) \<Longrightarrow> py_int x = \<lfloor>x\<rfloor>"
  by (simp add: py_int_def)

lemma local_clock:
  assumes "0 \<le> l" "l < 1440"
  shows "mk_datetime (year d) (month d) (day d) (py_int (floordiv l 60)) (py_int (fmod l 60))
     = Inr (clock_of d l)"
proof -
  have h: "py_int (floordiv l 60) = \<lfloor>l / 60\<rfloor>" by (simp add: floordiv_def py_int_of_int)
  have m: "py_int (fmod l 60) = \<lfloor>fmod l 60\<rfloor>"
    using fmod_range(1) [of 60 l] by (simp add: py_int_nonneg)
  have h0: "0 \<le> \<lfloor>l / 60\<rfloor>" using assms by simp
  have "l / 60 < 24" using assms by simp
  then have h1: "\<lfloor>l / 60\<rfloor> < 24" by (simp add: floor_less_iff)
  have m0: "0 \<le> \<lfloor>fmod l 60\<rfloor>" using fmod_range(1) [of 60 l] by simp
  have m1: "\<lfloor>fmod l 60\<rfloor> < 60" using fmod_range(2) [of 60 l] by (simp add: floor_less_iff)
  show ?thesis unfolding h m using h0 h1 m0 m1 by (simp add: mk_datetime_def clock_of_def)
qed

lemma ha_deg_nonneg:
  assumes "\<bar>cos_ha_value z d\<bar> \<le> 1"
  shows "0 \<le> ha_deg_of z d"
proof -
  have "0 \<le> arccos (cos_ha_value z d)" using assms by (intro arccos_lbound) simp_all
  then show ?thesis by (simp add: ha_deg_of_def degrees_def)
qed

lemma gamma_tl:
  "(2 * pi / 365) * (of_int (tm_yday d) - 1 + (12 - 12) / 24) = fractional_year (tm_yday d)"
  by (simp add: fractional_year_def)

lemma gamma_ov: "(2 * pi / 365) * (of_int (tm_yday d) - 1) = fractional_year (tm_yday d)"
  by (simp add: fractional_year_def)

lemma cos_ha_of_value:
  "cos_ha_of z (decl_of (fractional_year (tm_yday d))) = Inr (cos_ha_value z d)"
  by (simp add: cos_ha_of_eq cos_ha_value_def Let_def)

lemma crossing_select:
  assumes "0 \<le> ha_deg_of z d"
  shows "(if ev = ''sunrise''
          then min (solar_noon_utc_of d - 4 * ha_deg_of z d) (solar_noon_utc_of d + 4 * ha_deg_of z d)
          else max (solar_noon_utc_of d - 4 * ha_deg_of z d) (solar_noon_utc_of d + 4 * ha_deg_of z d))
         = crossing_utc z d ev"
  using assms by (simp add: crossing_utc_def min_def max_def)

lemma get_sun_time_tl_eq:
  "get_sun_time_tl d ev =
     (if \<bar>cos_ha_value 90.833 d\<bar> \<le> 1
      then Inr (Some (clock_of d (fmod (crossing_utc 90.833 d ev - 8 * 60) 1440)))
      else Inr None)"
proof (cases "\<bar>cos_ha_value 90.833 d\<bar> \<le> 1")
  case False
  then show ?thesis
    unfolding get_sun_time_tl_def Let_def gamma_tl cos_ha_of_value
    by auto
next
  case True
  let ?l = "fmod (crossing_utc 90.833 d ev - 8 * 60) 1440"
  have l: "0 \<le> ?l" "?l < 1440" by (simp_all add: fmod_range)
  have h: "0 \<le> ha_deg_of 90.833 d" using True by (rule ha_deg_nonneg)
  have c: "\<not> cos_ha_value 90.833 d > 1" "\<not> cos_ha_value 90.833 d < - 1" using True by auto
  have n: "720 - 4 * LONGITUDE - eqtime_of (fractional_year (tm_yday d)) = solar_noon_utc_of d"
    by (simp add: solar_noon_utc_of_def)
  have a: "\<And>z. degrees (arccos (cos_ha_value z d)) = ha_deg_of z d"
    by (simp add: ha_deg_of_def)
  have m: "\<And>x. degrees (- x) = - degrees x"
    by (simp add: degrees_def)
  have u: "(if ev = ''sunrise''
          then min (solar_noon_utc_of d + 4 * ha_deg_of 90.833 d) (solar_noon_utc_of d - 4 * ha_deg_of 90.833 d)
          else max (solar_noon_utc_of d - 4 * ha_deg_of 90.833 d) (solar_noon_utc_of d + 4 * ha_deg_of 90.833 d))
         = crossing_utc 90.833 d ev"
    using h by (simp add: crossing_utc_def min_def max_def)
  show ?thesis
    unfolding get_sun_time_tl_def gamma_tl Let_def cos_ha_of_value n
    using True c local_clock [OF l, of d] u h
    by (cases "ev = ''sunrise''") (simp_all add: m a crossing_utc_def min_def max_def)
qed


lemma get_sun_time_ov_eq:
  "get_sun_time_ov d ev =
     (if \<bar>cos_ha_value 90.833 d\<bar> \<le> 1
      then Inr (Some (clock_of d
             (fmod (crossing_utc 90.833 d ev + of_int (get_local_offset d) * 60) 1440)))
      else Inr None)"
proof (cases "\<bar>cos_ha_value 90.833 d\<bar> \<le> 1")
  case False
  then show ?thesis
    unfolding get_sun_time_ov_def Let_def gamma_ov cos_ha_of_value
    by auto
next
  case True
  let ?l = "fmod (crossing_utc 90.833 d ev + of_int (get_local_offset d) * 60) 1440"
  have l: "0 \<le> ?l" "?l < 1440" by (simp_all add: fmod_range)
  have h: "0 \<le> ha_deg_of 90.833 d" using True by (rule ha_deg_nonneg)
  have c: "\<not> (cos_ha_value 90.833 d > 1 \<or> cos_ha_value 90.833 d < - 1)" using True by auto
  have n: "720 - 4 * LONGITUDE - eqtime_of (fractional_year (tm_yday d)) = solar_noon_utc_of d"
    by (simp add: solar_noon_utc_of_def)
  have a: "\<And>z. degrees (arccos (cos_ha_value z d)) = ha_deg_of z d"
    by (simp add: ha_deg_of_def)
  show ?thesis
    unfolding get_sun_time_ov_def gamma_ov Let_def cos_ha_of_value n
    using True c local_clock [OF l, of d] h
    by (cases "ev = ''sunrise''") (simp_all add: a crossing_utc_def min_def max_def)
qed

lemma get_sun_time_rw_eq:
  "get_sun_time_rw d z =
     (if \<bar>cos_ha_value z d\<bar> \<le> 1
      then Inr (Some (of_int (utc_midnight d)
             + timedelta_minutes (solar_noon_utc_of d + 4 * ha_deg_of z d)))
      else Inr None)"
proof -
  have n: "720 - 4 * LONGITUDE - eqtime_of (fractional_year (tm_yday d)) = solar_noon_utc_of d"
    by (simp add: solar_noon_utc_of_def)
  have a: "\<And>z. degrees (arccos (cos_ha_value z d)) = ha_deg_of z d"
    by (simp add: ha_deg_of_def)
  show ?thesis
    unfolding get_sun_time_rw_def gamma_ov Let_def cos_ha_of_value n
    by (auto simp: a)
qed

text \<open>
  Claim C6. In each of the four scripts the solar routine returns an event time exactly
  when the hour-angle cosine \<open>cos(zenith) / (cos(lat) * cos(decl)) - tan(lat) * tan(decl)\<close>
  lies in \<open>[-1, 1]\<close>, and returns \<open>None\<close> exactly when it lies outside; it never raises:
  the divisor \<open>cos(lat) * cos(decl)\<close> is not zero on any date, \<^verbatim>\<open>math.acos\<close> is only
  reached inside its domain, and the hours and minutes given to \<^verbatim>\<open>datetime\<close> are in range.
  The location is the scripts' constant; the zenith is a parameter in \<^verbatim>\<open>automate_rewind.py\<close>
  and 90.833 degrees in the others. The arithmetic is that of the reals.
\<close>

theorem sun_time_defined_iff:
  "(\<exists>t. get_sun_time_tl date event = Inr (Some t)) = (\<bar>cos_ha_value 90.833 date\<bar> \<le> 1)
   \<and> (get_sun_time_tl date event = Inr None) = (\<not> \<bar>cos_ha_value 90.833 date\<bar> \<le> 1)
   \<and> (\<exists>t. get_sun_time_ov date event = Inr (Some t)) = (\<bar>cos_ha_value 90.833 date\<bar> \<le> 1)
   \<and> (get_sun_time_ov date event = Inr None) = (\<not> \<bar>cos_ha_value 90.833 date\<bar> \<le> 1)
   \<and> (\<exists>t. get_sun_time_rw date zenith_deg = Inr (Some t)) = (\<bar>cos_ha_value zenith_deg date\<bar> \<le> 1)
   \<and> (get_sun_time_rw date zenith_deg = Inr None) = (\<not> \<bar>cos_ha_value zenith_deg date\<bar> \<le> 1)
   \<and> (\<exists>t. get_sunset_time date = Inr (Some t)) = (\<bar>cos_ha_value 90.833 date\<bar> \<le> 1)
   \<and> (get_sunset_time date = Inr None) = (\<not> \<bar>cos_ha_value 90.833 date\<bar> \<le> 1)"
  by (simp add: get_sun_time_tl_eq get_sun_time_ov_eq get_sun_time_rw_eq get_sunset_time_def)

lemma cos_zenith_bound: "\<bar>cos (radians 90.833)\<bar> \<le> 0.0186"
proof -
  define x :: real where "x = 0.833 * pi / 180"
  have r: "radians 90.833 = pi / 2 + x" by (simp add: radians_def x_def)
  have "cos (pi / 2 + x) = - sin x" by (simp add: cos_add)
  then have "\<bar>cos (radians 90.833)\<bar> = \<bar>sin x\<bar>" by (simp only: r)
  also have "\<dots> \<le> \<bar>x\<bar>" by (rule abs_sin_x_le_abs_x)
  also have "\<dots> = 0.833 * pi / 180" by (simp add: x_def)
  also have "\<dots> \<le> 0.833 * 4 / 180" using pi_less_4 by simp
  also have "\<dots> \<le> 0.0186" by simp
  finally show ?thesis .
qed

lemma inv_sqrt3: "1 / sqrt 3 \<le> (0.5774 :: real)"
proof -
  have "1.732 \<le> sqrt 3" by (rule real_le_rsqrt) (simp add: power2_eq_square)
  then have "1 / sqrt 3 \<le> 1 / 1.732" by (intro divide_left_mono) simp_all
  also have "\<dots> \<le> (0.5774 :: real)" by simp
  finally show ?thesis .
qed

lemma cos_ha_bound: "\<bar>cos_ha_value 90.833 d\<bar> \<le> 0.7"
proof -
  define g where "g = fractional_year (tm_yday d)"
  define A where "A = cos (radians 90.833)"
  define B where "B = cos (radians LATITUDE) * cos (decl_of g)"
  define T where "T = tan (radians LATITUDE) * tan (decl_of g)"
  have v: "cos_ha_value 90.833 d = A / B - T"
    by (simp add: cos_ha_value_def Let_def g_def A_def B_def T_def)
  have A: "\<bar>A\<bar> \<le> 0.0186" unfolding A_def by (rule cos_zenith_bound)
  have B: "0.602 \<le> B" unfolding B_def by (rule denominator_bound)
  have "\<bar>A / B\<bar> = \<bar>A\<bar> / B" using B by (simp add: abs_divide)
  also have "\<dots> \<le> 0.0186 / 0.602" using A B by (intro frac_le) simp_all
  also have "\<dots> \<le> (0.031 :: real)" by simp
  finally have q: "\<bar>A / B\<bar> \<le> 0.031" .
  have t1: "\<bar>tan (decl_of g)\<bar> \<le> 0.5774"
    using small_angle(2) [OF decl_bound, of g] inv_sqrt3 by linarith
  have "\<bar>T\<bar> = tan (radians LATITUDE) * \<bar>tan (decl_of g)\<bar>"
    using tan_lat_bound(1) by (simp add: T_def abs_mult)
  also have "\<dots> \<le> 1 * 0.5774"
    using tan_lat_bound t1 by (intro mult_mono) simp_all
  finally have t: "\<bar>T\<bar> \<le> 0.5774" by simp
  have sum: "\<And>a b s :: real. a \<le> 0.031 \<Longrightarrow> b \<le> 0.5774 \<Longrightarrow> s \<le> a + b \<Longrightarrow> s \<le> 0.7"
    by simp
  have "\<bar>A / B - T\<bar> \<le> \<bar>A / B\<bar> + \<bar>T\<bar>" by (rule abs_triangle_ineq4)
  with q t show ?thesis unfolding v by (rule sum)
qed

lemma arccos_sqrt2: "arccos (sqrt 2 / 2) = pi / 4"
proof -
  have "arccos (cos (pi / 4)) = pi / 4" by (rule arccos_cos) simp_all
  then show ?thesis by (simp add: cos_45)
qed

lemma sqrt2_half: "0.7 \<le> sqrt 2 / 2" "sqrt 2 / 2 \<le> 1"
proof -
  have "1.4 \<le> sqrt 2" by (rule real_le_rsqrt) (simp add: power2_eq_square)
  then show "0.7 \<le> sqrt 2 / 2" by simp
  have "sqrt 2 \<le> 2" by (rule real_le_lsqrt) simp_all
  then show "sqrt 2 / 2 \<le> 1" by simp
qed

lemma ha_deg_bounds: "45 \<le> ha_deg_of 90.833 d" "ha_deg_of 90.833 d \<le> 135"
proof -
  define c where "c = cos_ha_value 90.833 d"
  have c: "- (sqrt 2 / 2) \<le> c" "c \<le> sqrt 2 / 2"
    using cos_ha_bound [of d] sqrt2_half(1) unfolding c_def by (simp_all add: abs_le_iff)
  have lo: "arccos (sqrt 2 / 2) \<le> arccos c"
    using c sqrt2_half(2) by (intro arccos_le_arccos) linarith+
  have "arccos c \<le> arccos (- (sqrt 2 / 2))"
    using c sqrt2_half(2) by (intro arccos_le_arccos) linarith+
  also have "\<dots> = pi - arccos (sqrt 2 / 2)"
    using sqrt2_half by (intro arccos_minus) linarith+
  finally have hi: "arccos c \<le> pi - pi / 4" by (simp add: arccos_sqrt2)
  have lo': "pi / 4 \<le> arccos c" using lo by (simp add: arccos_sqrt2)
  have e: "ha_deg_of 90.833 d = arccos c * (180 / pi)"
    by (simp add: ha_deg_of_def degrees_def c_def)
  have "pi / 4 * (180 / pi) \<le> arccos c * (180 / pi)"
    using lo' by (intro mult_right_mono) simp_all
  then show "45 \<le> ha_deg_of 90.833 d" unfolding e by simp
  have "arccos c * (180 / pi) \<le> (pi - pi / 4) * (180 / pi)"
    using hi by (intro mult_right_mono) simp_all
  also have "(pi - pi / 4) * (180 / pi) = 135" by (simp add: field_simps)
  finally show "ha_deg_of 90.833 d \<le> 135" unfolding e .
qed

lemma solar_noon_bounds: "1189.15 \<le> solar_noon_utc_of d" "solar_noon_utc_of d \<le> 1230.18"
proof -
  define e where "e = eqtime_of (fractional_year (tm_yday d))"
  have e: "- 20.51 \<le> e" "e \<le> 20.51"
    using eqtime_bound [of "fractional_year (tm_yday d)"] unfolding e_def
    by (simp_all add: abs_le_iff)
  have n: "solar_noon_utc_of d = 720 + 4 * 122.41549323195979 - e"
    by (simp add: solar_noon_utc_of_def LONGITUDE_def e_def)
  show "1189.15 \<le> solar_noon_utc_of d" unfolding n using e by simp
  show "solar_noon_utc_of d \<le> 1230.18" unfolding n using e by simp
qed

lemma cos_ha_in_range: "\<bar>cos_ha_value 90.833 d\<bar> \<le> 1"
  using cos_ha_bound [of d] by simp

lemma crossing_bounds:
  "649.15 \<le> crossing_utc 90.833 d ''sunrise''" "crossing_utc 90.833 d ''sunrise'' \<le> 1050.18"
  "1369.15 \<le> crossing_utc 90.833 d ''sunset''" "crossing_utc 90.833 d ''sunset'' \<le> 1770.18"
  using ha_deg_bounds [of d] solar_noon_bounds [of d]
  by (simp_all add: crossing_utc_def)

lemma clock_less:
  assumes "\<lfloor>l1 / 60\<rfloor> < \<lfloor>l2 / 60\<rfloor>"
  shows "dt_less (clock_of d l1) (clock_of d l2)"
  using assms by (simp add: dt_less_def dt_key_def clock_of_def less_prod_def)

lemma clock_order:
  assumes "0 \<le> l1" "l1 < 660" "840 \<le> l2" "l2 < 1440"
  shows "dt_less (clock_of d (fmod l1 1440)) (clock_of d (fmod l2 1440))"
proof -
  have 1: "fmod l1 1440 = l1" using assms by (intro fmod_id) simp_all
  have 2: "fmod l2 1440 = l2" using assms by (intro fmod_id) simp_all
  have "l1 / 60 < 11" using assms by simp
  then have a: "\<lfloor>l1 / 60\<rfloor> < 11" by (simp add: floor_less_iff)
  have "14 \<le> l2 / 60" using assms by simp
  then have b: "14 \<le> \<lfloor>l2 / 60\<rfloor>" by (simp add: le_floor_iff)
  show ?thesis unfolding 1 2 using a b by (intro clock_less) linarith
qed

lemma get_local_offset_cases: "get_local_offset d = - 7 \<or> get_local_offset d = - 8"
  by (simp add: get_local_offset_def)

text \<open>
  Claim C7. On every date both events exist at zenith 90.833 degrees at the scripts'
  location, and the local time returned for sunrise is strictly earlier than the one
  returned for sunset, in \<^verbatim>\<open>automate_timelapse.py\<close> and in \<^verbatim>\<open>automate_overlapping_timelapse.py\<close>
  (the two scripts that compute a sunrise). The margins are wide: the sunrise reading is
  before 11:00 and the sunset reading from 14:00 on, from bounds on the declination, the
  equation of time and the hour angle; the arithmetic is that of the reals.
\<close>

theorem sunrise_before_sunset:
  "(\<exists>tr ts. get_sun_time_tl date ''sunrise'' = Inr (Some tr)
        \<and> get_sun_time_tl date ''sunset'' = Inr (Some ts) \<and> dt_less tr ts)
   \<and> (\<exists>tr ts. get_sun_time_ov date ''sunrise'' = Inr (Some tr)
        \<and> get_sun_time_ov date ''sunset'' = Inr (Some ts) \<and> dt_less tr ts)"
proof -
  note c = crossing_bounds [of date]
  have tl: "dt_less (clock_of date (fmod (crossing_utc 90.833 date ''sunrise'' - 8 * 60) 1440))
      (clock_of date (fmod (crossing_utc 90.833 date ''sunset'' - 8 * 60) 1440))"
    using c by (intro clock_order) simp_all
  have ov: "dt_less
      (clock_of date (fmod (crossing_utc 90.833 date ''sunrise''
          + of_int (get_local_offset date) * 60) 1440))
      (clock_of date (fmod (crossing_utc 90.833 date ''sunset''
          + of_int (get_local_offset date) * 60) 1440))"
    using c get_local_offset_cases [of date] by (intro clock_order) auto
  show ?thesis
    using tl ov cos_ha_in_range [of date]
    by (simp add: get_sun_time_tl_eq get_sun_time_ov_eq)
qed

theorem sunrise_before_sunset_witness:
  "\<exists>tr ts. get_sun_time_tl \<lparr>year = 2025, month = 12, day = 15, hour = 0, minute = 0\<rparr> ''sunrise''
        = Inr (Some tr)
      \<and> get_sun_time_tl \<lparr>year = 2025, month = 12, day = 15, hour = 0, minute = 0\<rparr> ''sunset''
        = Inr (Some ts)
      \<and> dt_less tr ts"
  using sunrise_before_sunset [of "\<lparr>year = 2025, month = 12, day = 15, hour = 0, minute = 0\<rparr>"]
  by blast

text \<open>Both branches of the solar routine's guard are decided on 2025-12-15: the event exists.\<close>

theorem sun_time_defined_iff_witness:
  "(\<exists>t. get_sun_time_tl \<lparr>year = 2025, month = 12, day = 15, hour = 0, minute = 0\<rparr> ''sunset''
        = Inr (Some t))
   \<and> (\<exists>t. get_sun_time_ov \<lparr>year = 2025, month = 12, day = 15, hour = 0, minute = 0\<rparr> ''sunrise''
        = Inr (Some t))
   \<and> (\<exists>t. get_sunset_time \<lparr>year = 2025, month = 12, day = 15, hour = 0, minute = 0\<rparr>
        = Inr (Some t))"
  using sun_time_defined_iff [of "\<lparr>year = 2025, month = 12, day = 15, hour = 0, minute = 0\<rparr>"
      "''sunset''" "90.833"]
    sun_time_defined_iff [of "\<lparr>year = 2025, month = 12, day = 15, hour = 0, minute = 0\<rparr>"
      "''sunrise''" "90.833"]
    cos_ha_in_range [of "\<lparr>year = 2025, month = 12, day = 15, hour = 0, minute = 0\<rparr>"]
  by blast

text \<open>
  Claim C8 fails in two scripts. \<^verbatim>\<open>get_local_offset\<close> answers -8 for 2024-07-01, a date
  of daylight-saving time (UTC-7) in a year its table does not list, and also for the
  transition day 2025-03-09, as it is asked at midnight of the date and not at the
  instant of the event. \<^verbatim>\<open>automate_timelapse.py\<close> subtracts eight hours on every date, here
  2025-07-01.
\<close>

theorem offset_table_gap:
  "get_local_offset \<lparr>year = 2024, month = 7, day = 1, hour = 0, minute = 0\<rparr> = - 8
   \<and> get_local_offset \<lparr>year = 2025, month = 7, day = 1, hour = 0, minute = 0\<rparr> = - 7
   \<and> get_local_offset \<lparr>year = 2025, month = 3, day = 9, hour = 0, minute = 0\<rparr> = - 8
   \<and> get_sun_time_tl \<lparr>year = 2025, month = 7, day = 1, hour = 0, minute = 0\<rparr> ''sunset''
       = Inr (Some (clock_of \<lparr>year = 2025, month = 7, day = 1, hour = 0, minute = 0\<rparr>
           (fmod (crossing_utc 90.833 \<lparr>year = 2025, month = 7, day = 1, hour = 0, minute = 0\<rparr>
              ''sunset'' - 8 * 60) 1440)))"
proof -
  have "get_local_offset \<lparr>year = 2024, month = 7, day = 1, hour = 0, minute = 0\<rparr> = - 8
   \<and> get_local_offset \<lparr>year = 2025, month = 7, day = 1, hour = 0, minute = 0\<rparr> = - 7
   \<and> get_local_offset \<lparr>year = 2025, month = 3, day = 9, hour = 0, minute = 0\<rparr> = - 8"
    by (simp add: get_local_offset_def dt_le_def dt_less_def dt_key_def less_prod_def
        less_eq_prod_def)
  then show ?thesis
    using cos_ha_in_range [of "\<lparr>year = 2025, month = 7, day = 1, hour = 0, minute = 0\<rparr>"]
    by (simp add: get_sun_time_tl_eq)
qed

end
